theory Spec2Isabelle
  imports Main "HOL-Library.Multiset"
begin

section \<open>Layout descriptors, types and values\<close>

text \<open>
  The encoding attributes of the TritonGPU dialect. Their declarations live in the
  dialect headers; only the parts read by \<^verbatim>\<open>Utility.cpp\<close> are kept: the dimension
  and parent of a slice encoding, the operand index and parent of a dot-operand
  encoding and the vectorisation factor of a shared encoding. All other parameters are
  carried along as an opaque list of numbers, so that two encodings of one kind can
  differ.
\<close>

datatype layout =
    Blocked "nat list"
  | Slice nat layout
  | Mma "nat list"
  | DotOperand nat layout
  | Shared nat "nat list"

text \<open>
  The types. The encoding of a ranked tensor type is a type parameter: the analyses
  read IR in which every tensor type carries an encoding (\<open>ty\<close>), the rewrite executor
  can also build a tensor type whose encoding is the null attribute (\<open>rwTy\<close> below).
\<close>

datatype 'enc mlirType =
    RankedTensorType "int list" "'enc mlirType" 'enc
  | PointerType "'enc mlirType"
  | ScalarType nat

type_synonym ty = "layout mlirType"

type_synonym opid = nat
type_synonym blockid = nat

text \<open>An SSA value is a result of an operation or an argument of a block.\<close>

datatype val = OpResult opid nat | BlockArgument blockid nat

fun getDefiningOp :: "val \<Rightarrow> opid option" where
  "getDefiningOp (OpResult p i) = Some p"
| "getDefiningOp (BlockArgument b i) = None"

datatype opkind =
    LoadOp | StoreOp | CatOp
  | ExtractSliceOp | AllocTensorOp | InsertSliceAsyncOp
  | AtomicRMWOp | AtomicCASOp | DotOp
  | YieldOp | ForOp | IfOp | WhileOp | ConditionOp
  | ConvertLayoutOp | ConstantOp | MakeRangeOp | SplatOp | ViewOp
  | ExpandDimsOp nat
  | ReduceOp nat
  | AssertOp | PrintOp
  | OtherOp string

record operation =
  kind :: opkind
  operands :: "val list"
  numResults :: nat
  parentBlock :: blockid
  regionOps :: "opid list"
  sameOperandsAndResultEncoding :: bool
  elementwise :: bool

text \<open>
  The part of the IR that the read-only analyses inspect. \<open>opAt\<close> dereferences an
  operation pointer, \<open>typeOf\<close> is \<^verbatim>\<open>Value::getType\<close>, \<open>usesOf\<close> is the use list of a
  value (owner and operand number of every use), \<open>blockOwner\<close> is
  \<^verbatim>\<open>Block::getParentOp\<close> (null for a block without a parent operation) and \<open>forBody\<close>
  is \<^verbatim>\<open>scf::ForOp::getBody\<close>. \<open>regionOps\<close> lists the operations of all blocks of all
  regions of an operation, in order.
\<close>

record graph =
  opAt :: "opid \<Rightarrow> operation"
  typeOf :: "val \<Rightarrow> ty"
  usesOf :: "val \<Rightarrow> (opid \<times> nat) list"
  blockOwner :: "blockid \<Rightarrow> opid option"
  forBody :: "opid \<Rightarrow> blockid"

text \<open>
  What \<^verbatim>\<open>Utility.cpp\<close> calls but does not define: the two predicates
  \<^verbatim>\<open>triton::gpu::isExpensiveCat\<close> and \<^verbatim>\<open>isSingleValue\<close>, and the two module
  attributes read by \<^verbatim>\<open>getNumWarps\<close> and \<^verbatim>\<open>getThreadsPerWarp\<close>. They are parameters.
\<close>

record env =
  isExpensiveCat :: "opid \<Rightarrow> layout \<Rightarrow> bool"
  isSingleValue :: "val \<Rightarrow> bool"
  numWarps :: int
  threadsPerWarp :: int

text \<open>A failed \<^verbatim>\<open>cast\<close>, an operand index out of range, a null operation dereferenced.\<close>

datatype error = CastFailure | NoSuchOperand | NoSuchResult | NullOperation

section \<open>Layout inversion\<close>

text \<open>
  \<^verbatim>\<open>invertEncoding\<close>: \<open>None\<close> is \<^verbatim>\<open>failure()\<close>, \<open>Some ret\<close> is \<^verbatim>\<open>success()\<close> with the
  out-parameter. The three tests of the source are on disjoint operation kinds.
\<close>

definition invertEncoding :: "layout \<Rightarrow> operation \<Rightarrow> layout option" where
  "invertEncoding targetEncoding op =
     (case kind op of
        ExpandDimsOp axis \<Rightarrow> Some (Slice axis targetEncoding)
      | ReduceOp axis \<Rightarrow>
          (case targetEncoding of
             Slice dim parent \<Rightarrow> if dim \<noteq> axis then None else Some parent
           | _ \<Rightarrow> None)
      | ViewOp \<Rightarrow> None
      | CatOp \<Rightarrow> None
      | _ \<Rightarrow> Some targetEncoding)"

section \<open>Cost classifier\<close>

definition getNumElements :: "int list \<Rightarrow> int" where
  "getNumElements shape = prod_list shape"

text \<open>
  \<^verbatim>\<open>numWarps * threadsPerWarp\<close> is a product of two \<^verbatim>\<open>int\<close>s: it is computed in 32 bits,
  two's complement, and wraps around.
\<close>

definition mulInt32 :: "int \<Rightarrow> int \<Rightarrow> int" where
  "mulInt32 a b = (a * b + 2 ^ 31) mod 2 ^ 32 - 2 ^ 31"

definition isExpensiveLoadOrStore :: "env \<Rightarrow> graph \<Rightarrow> opid \<Rightarrow> layout \<Rightarrow> error + bool" where
  "isExpensiveLoadOrStore e g op targetEncoding =
     (case operands (opAt g op) of
        [] \<Rightarrow> Inl NoSuchOperand
      | ptr # _ \<Rightarrow>
          if isSingleValue e ptr then Inr False
          else (case typeOf g ptr of
                  RankedTensorType shape elt enc \<Rightarrow>
                    if getNumElements shape < mulInt32 (numWarps e) (threadsPerWarp e) then Inr False
                    else Inr True
                | _ \<Rightarrow> Inl CastFailure))"

definition isExpensiveToRemat :: "env \<Rightarrow> graph \<Rightarrow> opid option \<Rightarrow> layout \<Rightarrow> error + bool" where
  "isExpensiveToRemat e g op targetEncoding =
     (case op of
        None \<Rightarrow> Inr True
      | Some p \<Rightarrow>
          if kind (opAt g p) \<in> set [LoadOp, StoreOp] then isExpensiveLoadOrStore e g p targetEncoding
          else if kind (opAt g p) = CatOp then Inr (isExpensiveCat e p targetEncoding)
          else if kind (opAt g p) \<in> set [ExtractSliceOp, AllocTensorOp, InsertSliceAsyncOp,
                                          AtomicRMWOp, AtomicCASOp, DotOp] then Inr True
          else if kind (opAt g p) \<in> set [YieldOp, ForOp, IfOp, WhileOp, ConditionOp] then Inr True
          else Inr False)"

definition canFoldConversion :: "env \<Rightarrow> graph \<Rightarrow> opid \<Rightarrow> layout \<Rightarrow> bool" where
  "canFoldConversion e g op targetEncoding =
     (if kind (opAt g op) = CatOp then \<not> isExpensiveCat e op targetEncoding
      else kind (opAt g op) \<in> set [ConvertLayoutOp, ConstantOp, MakeRangeOp, SplatOp, ViewOp])"

section \<open>Backward rematerialization simulator\<close>

text \<open>
  The three in-out parameters of \<^verbatim>\<open>simulateBackwardRematerialization\<close>. A
  \<^verbatim>\<open>SetVector\<close> is a list without duplicates in insertion order, a \<^verbatim>\<open>MapVector\<close> an
  association list in insertion order whose \<^verbatim>\<open>insert\<close> keeps an existing entry.
\<close>

record simstate =
  processed :: "opid list"
  layout :: "layout list"
  toConvert :: "(val \<times> layout) list"

definition emptyState :: simstate where
  "emptyState = \<lparr>processed = [], layout = [], toConvert = []\<rparr>"

definition setInsert :: "'a \<Rightarrow> 'a list \<Rightarrow> 'a list" where
  "setInsert x xs = (if x \<in> set xs then xs else xs @ [x])"

definition mapInsert :: "'k \<Rightarrow> 'v \<Rightarrow> ('k \<times> 'v) list \<Rightarrow> ('k \<times> 'v) list" where
  "mapInsert k v m = (case map_of m k of Some w \<Rightarrow> m | None \<Rightarrow> m @ [(k, v)])"

definition INT_MAX :: int where
  "INT_MAX = 2147483647"

fun isPointerToTensor :: "ty \<Rightarrow> bool" where
  "isPointerToTensor (PointerType (RankedTensorType shape elt enc)) = True"
| "isPointerToTensor t = False"

fun isRankedTensor :: "ty \<Rightarrow> bool" where
  "isRankedTensor (RankedTensorType shape elt enc) = True"
| "isRankedTensor t = False"

text \<open>
  The body of the \<^verbatim>\<open>for (Value argI : currOp->getOperands())\<close> loop, over the operands
  still to visit. \<open>Abort\<close> is \<^verbatim>\<open>return INT_MAX\<close>; \<open>Continue\<close> carries the stack (its top
  is the head of the list), the counter and the in-out parameters.
\<close>

datatype walk = Abort simstate | Continue "(opid option \<times> layout) list" int simstate

fun visitOperands ::
  "env \<Rightarrow> graph \<Rightarrow> opid \<Rightarrow> layout \<Rightarrow> val list \<Rightarrow>
   (opid option \<times> layout) list \<Rightarrow> int \<Rightarrow> simstate \<Rightarrow> walk" where
  "visitOperands e g currOp currLayout [] queue numCvts st = Continue queue numCvts st"
| "visitOperands e g currOp currLayout (argI # args) queue numCvts st =
     (case invertEncoding currLayout (opAt g currOp) of
        None \<Rightarrow> Abort st
      | Some newEncoding \<Rightarrow>
          if (case map_of (toConvert st) argI of Some enc \<Rightarrow> enc \<noteq> newEncoding | None \<Rightarrow> False)
          then Abort st
          else if isPointerToTensor (typeOf g argI) then Abort st
          else
            (let st' = st\<lparr>toConvert := mapInsert argI newEncoding (toConvert st)\<rparr> in
             case getDefiningOp argI of
               None \<Rightarrow> visitOperands e g currOp currLayout args queue numCvts st'
             | Some opArgI \<Rightarrow>
                 if \<not> isRankedTensor (typeOf g argI) \<or> opArgI \<in> set (processed st')
                    \<or> parentBlock (opAt g opArgI) \<noteq> parentBlock (opAt g currOp)
                 then visitOperands e g currOp currLayout args queue numCvts st'
                 else if canFoldConversion e g opArgI newEncoding
                 then visitOperands e g currOp currLayout args queue numCvts st'
                 else visitOperands e g currOp currLayout args
                        ((Some opArgI, newEncoding) # queue) (numCvts + 1) st'))"

text \<open>
  One iteration of \<^verbatim>\<open>while (!queue.empty())\<close>, the loop test included: \<open>Return\<close>
  leaves the function (\<open>Inl\<close> when an assertion fails, otherwise the returned counter
  with the final in-out parameters), \<open>Again\<close> is the state at the next loop test.
  A null \<^verbatim>\<open>currOp\<close> that passed the classifier would be dereferenced by
  \<^verbatim>\<open>currOp->getOperands()\<close>; this is the error \<open>NullOperation\<close>.
\<close>

datatype iter =
    Return "error + int \<times> simstate"
  | Again "(opid option \<times> layout) list" int simstate

definition simulateStep ::
  "env \<Rightarrow> graph \<Rightarrow> (opid option \<times> layout) list \<Rightarrow> int \<Rightarrow> simstate \<Rightarrow> iter" where
  "simulateStep e g queue numCvts st =
     (case queue of
        [] \<Rightarrow> Return (Inr (numCvts, st))
      | (currOp, currLayout) # rest \<Rightarrow>
          (case isExpensiveToRemat e g currOp currLayout of
             Inl err \<Rightarrow> Return (Inl err)
           | Inr expensive \<Rightarrow>
               if expensive then Return (Inr (numCvts, st))
               else
                 (case currOp of
                    None \<Rightarrow> Return (Inl NullOperation)
                  | Some p \<Rightarrow>
                      (case visitOperands e g p currLayout (operands (opAt g p)) rest (numCvts - 1)
                              (st\<lparr>processed := setInsert p (processed st),
                                  layout := setInsert currLayout (layout st)\<rparr>) of
                         Abort st' \<Rightarrow> Return (Inr (INT_MAX, st'))
                       | Continue queue' numCvts' st' \<Rightarrow> Again queue' numCvts' st'))))"

text \<open>The loop itself; \<open>None\<close> when it does not end.\<close>

partial_function (option) simulateLoop ::
  "env \<Rightarrow> graph \<Rightarrow> (opid option \<times> layout) list \<Rightarrow> int \<Rightarrow> simstate \<Rightarrow>
   (error + int \<times> simstate) option" where
  "simulateLoop e g queue numCvts st =
     (case simulateStep e g queue numCvts st of
        Return r \<Rightarrow> Some r
      | Again queue' numCvts' st' \<Rightarrow> simulateLoop e g queue' numCvts' st')"

definition simulateBackwardRematerialization ::
  "env \<Rightarrow> graph \<Rightarrow> opid option \<Rightarrow> simstate \<Rightarrow> layout \<Rightarrow> (error + int \<times> simstate) option" where
  "simulateBackwardRematerialization e g initOp st targetEncoding =
     simulateLoop e g [(initOp, targetEncoding)] 1 st"

section \<open>Forward slice\<close>

text \<open>
  The two out-parameters of \<^verbatim>\<open>getForwardSliceOpUseInfo\<close>: the operations of the slice
  and, for every use met, the value, its owner and the operand number.
\<close>

record slice =
  sliceOps :: "opid list"
  sliceUseInfo :: "(val \<times> opid \<times> nat) list"

text \<open>The uses of all results of an operation, in the order of the two nested loops.\<close>

definition resultUses :: "graph \<Rightarrow> opid \<Rightarrow> (val \<times> opid \<times> nat) list" where
  "resultUses g op =
     concat (map (\<lambda>i. map (\<lambda>(owner, idx). (OpResult op i, owner, idx)) (usesOf g (OpResult op i)))
                 [0 ..< numResults (opAt g op)])"

text \<open>
  The recursion of \<^verbatim>\<open>getForwardSliceOpUseInfo\<close> follows the IR and need not end on an
  ill-formed one, so it takes fuel: \<open>None\<close> when the fuel runs out. \<open>sliceRegionOps\<close>
  is the loop over the operations of the regions, \<open>sliceUses\<close> the loop over the uses
  of the results.
\<close>

fun getForwardSliceOpUseInfo :: "graph \<Rightarrow> nat \<Rightarrow> opid option \<Rightarrow> slice \<Rightarrow> slice option"
  and sliceRegionOps :: "graph \<Rightarrow> nat \<Rightarrow> opid list \<Rightarrow> slice \<Rightarrow> slice option"
  and sliceUses :: "graph \<Rightarrow> nat \<Rightarrow> (val \<times> opid \<times> nat) list \<Rightarrow> slice \<Rightarrow> slice option" where
  "getForwardSliceOpUseInfo g fuel None s = Some s"
| "getForwardSliceOpUseInfo g 0 (Some op) s = None"
| "getForwardSliceOpUseInfo g (Suc fuel) (Some op) s =
     (case sliceRegionOps g fuel (regionOps (opAt g op)) s of
        None \<Rightarrow> None
      | Some s1 \<Rightarrow>
          (case sliceUses g fuel (resultUses g op) s1 of
             None \<Rightarrow> None
           | Some s2 \<Rightarrow> Some (s2\<lparr>sliceOps := setInsert op (sliceOps s2)\<rparr>)))"
| "sliceRegionOps g fuel [] s = Some s"
| "sliceRegionOps g fuel (blockOp # ops) s =
     (if blockOp \<in> set (sliceOps s) then sliceRegionOps g fuel ops s
      else (case getForwardSliceOpUseInfo g fuel (Some blockOp) s of
              None \<Rightarrow> None
            | Some s' \<Rightarrow> sliceRegionOps g fuel ops s'))"
| "sliceUses g fuel [] s = Some s"
| "sliceUses g fuel ((v, blockOp, idx) # us) s =
     (if blockOp \<in> set (sliceOps s)
      then sliceUses g fuel us (s\<lparr>sliceUseInfo := sliceUseInfo s @ [(v, blockOp, idx)]\<rparr>)
      else (case getForwardSliceOpUseInfo g fuel (Some blockOp)
                   (s\<lparr>sliceUseInfo := sliceUseInfo s @ [(v, blockOp, idx)]\<rparr>) of
              None \<Rightarrow> None
            | Some s' \<Rightarrow> sliceUses g fuel us s'))"

section \<open>Forward-in-loop legality checker\<close>

text \<open>A \<^verbatim>\<open>BlockArgument\<close>: its owner block and its argument number.\<close>

type_synonym blockarg = "blockid \<times> nat"

definition argVal :: "blockarg \<Rightarrow> val" where
  "argVal arg = BlockArgument (fst arg) (snd arg)"

fun isShared :: "layout \<Rightarrow> bool" where
  "isShared (Shared vec ps) = True"
| "isShared l = False"

fun isSlice :: "layout \<Rightarrow> bool" where
  "isSlice (Slice dim parent) = True"
| "isSlice l = False"

fun isDotOperand :: "layout \<Rightarrow> bool" where
  "isDotOperand (DotOperand idx parent) = True"
| "isDotOperand l = False"

fun isReduceOp :: "opkind \<Rightarrow> bool" where
  "isReduceOp (ReduceOp axis) = True"
| "isReduceOp k = False"

text \<open>
  The loop \<^verbatim>\<open>for (Value value : op->getOperands())\<close> of
  \<^verbatim>\<open>simulateForwardRematerializationInLoop\<close>. Its body reads \<^verbatim>\<open>arg.getDefiningOp()\<close>,
  the producer of the block argument \<^verbatim>\<open>arg\<close>; the loop variable \<^verbatim>\<open>value\<close> is not
  used. \<open>Inr False\<close> is \<^verbatim>\<open>return failure()\<close>, \<open>Inr True\<close> the end of the loop.
\<close>

fun checkOperands ::
  "env \<Rightarrow> graph \<Rightarrow> opid list \<Rightarrow> blockarg \<Rightarrow> layout \<Rightarrow> val list \<Rightarrow> (error + bool) option" where
  "checkOperands e g cvtSliceOps arg targetEncoding [] = Some (Inr True)"
| "checkOperands e g cvtSliceOps arg targetEncoding (value # values) =
     (case simulateBackwardRematerialization e g (getDefiningOp (argVal arg)) emptyState
             targetEncoding of
        None \<Rightarrow> None
      | Some (Inl err) \<Rightarrow> Some (Inl err)
      | Some (Inr (numAddedConvs, st)) \<Rightarrow>
          if (case getDefiningOp (argVal arg) of
                None \<Rightarrow> False
              | Some argOp \<Rightarrow> kind (opAt g argOp) \<noteq> ConvertLayoutOp \<and>
                              argOp \<notin> set cvtSliceOps \<and> numAddedConvs > 0)
          then Some (Inr False)
          else checkOperands e g cvtSliceOps arg targetEncoding values)"

text \<open>The tests made on a slice operation other than the starting one.\<close>

definition checkRematerializable :: "env \<Rightarrow> graph \<Rightarrow> opid \<Rightarrow> layout \<Rightarrow> error + bool" where
  "checkRematerializable e g op targetEncoding =
     (case isExpensiveToRemat e g (Some op) targetEncoding of
        Inl err \<Rightarrow> Inl err
      | Inr expensive \<Rightarrow>
          if expensive then Inr False
          else if \<not> sameOperandsAndResultEncoding (opAt g op) \<and> \<not> elementwise (opAt g op) \<and>
                  \<not> (kind (opAt g op) \<in> set [StoreOp, AssertOp, PrintOp] \<or>
                     isReduceOp (kind (opAt g op)))
          then Inr False
          else Inr True)"

text \<open>The loop \<^verbatim>\<open>for (Operation *op : cvtSliceOps)\<close>.\<close>

fun checkSliceOps ::
  "env \<Rightarrow> graph \<Rightarrow> opid option \<Rightarrow> opid list \<Rightarrow> blockarg \<Rightarrow> layout \<Rightarrow> opid list \<Rightarrow>
   (error + bool) option" where
  "checkSliceOps e g startOp cvtSliceOps arg targetEncoding [] = Some (Inr True)"
| "checkSliceOps e g startOp cvtSliceOps arg targetEncoding (op # ops) =
     (if kind (opAt g op) = YieldOp
      then checkSliceOps e g startOp cvtSliceOps arg targetEncoding ops
      else
        (case (if Some op \<noteq> startOp then checkRematerializable e g op targetEncoding
               else Inr True) of
           Inl err \<Rightarrow> Some (Inl err)
         | Inr ok \<Rightarrow>
             if \<not> ok then Some (Inr False)
             else
               (case checkOperands e g cvtSliceOps arg targetEncoding (operands (opAt g op)) of
                  None \<Rightarrow> None
                | Some (Inl err) \<Rightarrow> Some (Inl err)
                | Some (Inr ok') \<Rightarrow>
                    if \<not> ok' then Some (Inr False)
                    else checkSliceOps e g startOp cvtSliceOps arg targetEncoding ops)))"

text \<open>
  The loop over the recorded uses. \<^verbatim>\<open>arg.getArgNumber() - 1\<close> is computed on
  \<^verbatim>\<open>unsigned\<close>, so it wraps at argument number 0.
\<close>

definition nthOperand :: "val list \<Rightarrow> nat \<Rightarrow> error + val" where
  "nthOperand vs i = (if i < length vs then Inr (vs ! i) else Inl NoSuchOperand)"

fun checkYields :: "graph \<Rightarrow> blockarg \<Rightarrow> (val \<times> opid \<times> nat) list \<Rightarrow> error + bool" where
  "checkYields g arg [] = Inr True"
| "checkYields g arg ((v, op, yieldIdx) # infos) =
     (if kind (opAt g op) = YieldOp \<and> yieldIdx \<noteq> (snd arg + 2 ^ 32 - 1) mod 2 ^ 32
      then
        (case typeOf g (argVal arg) of
           RankedTensorType ashape aelt argEncoding \<Rightarrow>
             (case nthOperand (operands (opAt g op)) yieldIdx of
                Inl err \<Rightarrow> Inl err
              | Inr y \<Rightarrow>
                  (case typeOf g y of
                     RankedTensorType yshape yelt yieldEncoding \<Rightarrow>
                       if argEncoding \<noteq> yieldEncoding then Inr False
                       else checkYields g arg infos
                   | _ \<Rightarrow> Inr False))
         | _ \<Rightarrow> Inl CastFailure)
      else checkYields g arg infos)"

definition simulateForwardRematerializationInLoop ::
  "env \<Rightarrow> graph \<Rightarrow> nat \<Rightarrow> opid option \<Rightarrow> blockarg \<Rightarrow> layout \<Rightarrow> (error + bool) option" where
  "simulateForwardRematerializationInLoop e g fuel startOp arg targetEncoding =
     (if isShared targetEncoding \<or> isSlice targetEncoding then Some (Inr False)
      else
        (case getForwardSliceOpUseInfo g fuel startOp \<lparr>sliceOps = [], sliceUseInfo = []\<rparr> of
           None \<Rightarrow> None
         | Some s \<Rightarrow>
             (case checkSliceOps e g startOp (sliceOps s) arg targetEncoding (sliceOps s) of
                None \<Rightarrow> None
              | Some (Inl err) \<Rightarrow> Some (Inl err)
              | Some (Inr ok) \<Rightarrow>
                  if \<not> ok then Some (Inr False)
                  else Some (checkYields g arg (sliceUseInfo s)))))"

section \<open>Loop-hoisting decision\<close>

text \<open>
  The three collections filled by the loop over \<^verbatim>\<open>arg.getUsers()\<close>: the in-out
  parameter \<^verbatim>\<open>cvts\<close> and the locals \<^verbatim>\<open>cvtTypes\<close> and \<^verbatim>\<open>others\<close>.
\<close>

record hoist =
  cvts :: "opid list"
  cvtTypes :: "ty list"
  others :: "opid list"

fun collectUsers :: "graph \<Rightarrow> layout \<Rightarrow> opid list \<Rightarrow> hoist \<Rightarrow> error + hoist" where
  "collectUsers g oldEncoding [] h = Inr h"
| "collectUsers g oldEncoding (user # users) h =
     (if kind (opAt g user) = ConvertLayoutOp
      then
        (if numResults (opAt g user) = 0 then Inl NoSuchResult
         else
           (case typeOf g (OpResult user 0) of
              RankedTensorType shape elt newEncoding \<Rightarrow>
                if isShared oldEncoding \<and> isDotOperand newEncoding
                then collectUsers g oldEncoding users h
                else if (case newEncoding of Shared vec ps \<Rightarrow> vec = 1 | _ \<Rightarrow> False)
                then collectUsers g oldEncoding users h
                else collectUsers g oldEncoding users
                       (h\<lparr>cvts := cvts h @ [user],
                          cvtTypes := setInsert (typeOf g (OpResult user 0)) (cvtTypes h)\<rparr>)
            | _ \<Rightarrow> Inl CastFailure))
      else collectUsers g oldEncoding users (h\<lparr>others := setInsert user (others h)\<rparr>))"

fun checkOthers ::
  "env \<Rightarrow> graph \<Rightarrow> nat \<Rightarrow> blockid \<Rightarrow> blockarg \<Rightarrow> layout \<Rightarrow> opid list \<Rightarrow> (error + bool) option" where
  "checkOthers e g fuel body arg targetEncoding [] = Some (Inr True)"
| "checkOthers e g fuel body arg targetEncoding (other # os) =
     (if parentBlock (opAt g other) \<noteq> body then Some (Inr False)
      else
        (case simulateForwardRematerializationInLoop e g fuel (Some other) arg targetEncoding of
           None \<Rightarrow> None
         | Some (Inl err) \<Rightarrow> Some (Inl err)
         | Some (Inr ok) \<Rightarrow>
             if \<not> ok then Some (Inr False)
             else checkOthers e g fuel body arg targetEncoding os))"

text \<open>
  \<^verbatim>\<open>canMoveOutOfLoop\<close>: the result is the \<^verbatim>\<open>LogicalResult\<close> (\<open>True\<close> for success) with
  the final \<^verbatim>\<open>cvts\<close>.
\<close>

definition canMoveOutOfLoop ::
  "env \<Rightarrow> graph \<Rightarrow> nat \<Rightarrow> blockarg \<Rightarrow> opid list \<Rightarrow> (error + bool \<times> opid list) option" where
  "canMoveOutOfLoop e g fuel arg cvts0 =
     (case blockOwner g (fst arg) of
        None \<Rightarrow> Some (Inl NullOperation)
      | Some parentOp \<Rightarrow>
          if kind (opAt g parentOp) = WhileOp then Some (Inr (False, cvts0))
          else if kind (opAt g parentOp) \<noteq> ForOp then Some (Inr (True, cvts0))
          else
            (case typeOf g (argVal arg) of
               RankedTensorType oshape oelt oldEncoding \<Rightarrow>
                 (case collectUsers g oldEncoding (map fst (usesOf g (argVal arg)))
                         \<lparr>cvts = cvts0, cvtTypes = [], others = []\<rparr> of
                    Inl err \<Rightarrow> Some (Inl err)
                  | Inr h \<Rightarrow>
                      if cvts h = [] then Some (Inr (True, cvts h))
                      else if length (cvtTypes h) = 1 then
                        (if \<not> list_all (\<lambda>cvt. parentBlock (opAt g cvt) = forBody g parentOp) (cvts h)
                         then Some (Inr (False, cvts h))
                         else
                           (case cvtTypes h of
                              RankedTensorType tshape telt targetEncoding # ts \<Rightarrow>
                                (case checkOthers e g fuel (forBody g parentOp) arg targetEncoding
                                        (others h) of
                                   None \<Rightarrow> None
                                 | Some (Inl err) \<Rightarrow> Some (Inl err)
                                 | Some (Inr ok) \<Rightarrow> Some (Inr (ok, cvts h)))
                            | _ \<Rightarrow> Some (Inl CastFailure)))
                      else Some (Inr (False, cvts h)))
             | _ \<Rightarrow> Some (Inl CastFailure)))"

section \<open>Loop type fixup\<close>

text \<open>
  What \<^verbatim>\<open>FixupLoop::matchAndRewrite\<close> reads and writes of an \<^verbatim>\<open>scf.for\<close>: its bounds and
  step, its initial values, the types of its region iteration arguments and of its
  results, and its body block. Iteration argument \<open>i\<close> of a loop with body \<open>b\<close> is the
  value \<open>BlockArgument b (i + 1)\<close> (argument 0 is the induction variable), result \<open>i\<close>
  of the loop \<open>p\<close> is \<open>OpResult p i\<close>.
\<close>

record forLoop =
  lowerBound :: val
  upperBound :: val
  loopStep :: val
  initArgs :: "val list"
  regionIterArgTypes :: "ty list"
  resultTypes :: "ty list"
  bodyBlock :: blockid

text \<open>
  The loops of a module in walk order, and the types of the values that no loop
  defines. The type of a loop result or of an iteration argument is read from the loop.
\<close>

record moduleOp =
  forOps :: "(opid \<times> forLoop) list"
  otherTypes :: "val \<Rightarrow> ty"

fun getType :: "moduleOp \<Rightarrow> val \<Rightarrow> ty" where
  "getType m (OpResult p i) =
     (case map_of (forOps m) p of
        Some f \<Rightarrow> if i < length (resultTypes f) then resultTypes f ! i
                  else otherTypes m (OpResult p i)
      | None \<Rightarrow> otherTypes m (OpResult p i))"
| "getType m (BlockArgument b i) =
     (case find (\<lambda>(p, f). bodyBlock f = b) (forOps m) of
        Some (p, f) \<Rightarrow> if 0 < i \<and> i \<le> length (regionIterArgTypes f)
                       then regionIterArgTypes f ! (i - 1)
                       else otherTypes m (BlockArgument b i)
      | None \<Rightarrow> otherTypes m (BlockArgument b i))"

text \<open>
  The first loop of \<^verbatim>\<open>matchAndRewrite\<close>, over the types of the initial values: it
  stops at the first index where the type differs from the type of the iteration
  argument or from the result type. An index past the end of the iteration arguments
  or of the results is an error.
\<close>

fun shouldRematerialize :: "ty list \<Rightarrow> ty list \<Rightarrow> ty list \<Rightarrow> error + bool" where
  "shouldRematerialize [] iterTys resTys = Inr False"
| "shouldRematerialize (t # initTys) [] resTys = Inl NoSuchOperand"
| "shouldRematerialize (t # initTys) (a # iterTys) resTys =
     (if t \<noteq> a then Inr True
      else (case resTys of
              [] \<Rightarrow> Inl NoSuchResult
            | r # resTys' \<Rightarrow>
                if t \<noteq> r then Inr True else shouldRematerialize initTys iterTys resTys'))"

text \<open>
  The rewrite builds a new loop from the same bounds, step and initial values; its
  iteration arguments and results take the types of the initial values. The body is
  cloned with the old iteration arguments mapped to the new ones by index, and
  \<^verbatim>\<open>replaceOp\<close> redirects every use of an old result to the new result of the same
  index. Values are named by position, so the new loop is stored under the key of the
  loop it replaces and the clone of the body is the body. \<open>Inr None\<close> is
  \<^verbatim>\<open>failure()\<close>: the pattern does not apply and nothing is rewritten.
\<close>

definition replaceOp :: "opid \<Rightarrow> forLoop \<Rightarrow> (opid \<times> forLoop) list \<Rightarrow> (opid \<times> forLoop) list" where
  "replaceOp p newForOp ops = map (\<lambda>(q, f). if q = p then (q, newForOp) else (q, f)) ops"

definition matchAndRewrite :: "moduleOp \<Rightarrow> opid \<Rightarrow> error + moduleOp option" where
  "matchAndRewrite m op =
     (case map_of (forOps m) op of
        None \<Rightarrow> Inr None
      | Some forOp \<Rightarrow>
          (case shouldRematerialize (map (getType m) (initArgs forOp))
                  (regionIterArgTypes forOp) (resultTypes forOp) of
             Inl err \<Rightarrow> Inl err
           | Inr should \<Rightarrow>
               if \<not> should then Inr None
               else Inr (Some (m\<lparr>forOps := replaceOp op
                      (forOp\<lparr>regionIterArgTypes := map (getType m) (initArgs forOp),
                             resultTypes := map (getType m) (initArgs forOp)\<rparr>) (forOps m)\<rparr>))))"

text \<open>
  \<^verbatim>\<open>fixupLoops\<close> hands the pattern to MLIR's greedy driver, which applies it until it
  applies nowhere. The driver is modelled as: rewrite the first loop that the pattern
  matches, and start again; \<open>None\<close> when this never ends.
\<close>

fun firstMatch :: "moduleOp \<Rightarrow> opid list \<Rightarrow> error + moduleOp option" where
  "firstMatch m [] = Inr None"
| "firstMatch m (op # ops) =
     (case matchAndRewrite m op of
        Inl err \<Rightarrow> Inl err
      | Inr None \<Rightarrow> firstMatch m ops
      | Inr (Some m') \<Rightarrow> Inr (Some m'))"

partial_function (option) applyPatternsGreedily :: "moduleOp \<Rightarrow> (error + moduleOp) option" where
  "applyPatternsGreedily m =
     (case firstMatch m (map fst (forOps m)) of
        Inl err \<Rightarrow> Some (Inl err)
      | Inr None \<Rightarrow> Some (Inr m)
      | Inr (Some m') \<Rightarrow> applyPatternsGreedily m')"

definition fixupLoops :: "moduleOp \<Rightarrow> (error + moduleOp) option" where
  "fixupLoops m = applyPatternsGreedily m"

text \<open>
  The verifier's invariant of \<^verbatim>\<open>scf.for\<close>: as many iteration arguments and results as
  initial values; and the keys are distinct. \<open>loopShape\<close> is everything of a loop but
  the types: key, initial values, numbers of parameters and results, body, bounds.
\<close>

definition wellFormedLoops :: "moduleOp \<Rightarrow> bool" where
  "wellFormedLoops m \<longleftrightarrow>
     distinct (map fst (forOps m)) \<and>
     (\<forall>(p, f) \<in> set (forOps m). length (regionIterArgTypes f) = length (initArgs f) \<and>
                                 length (resultTypes f) = length (initArgs f))"

definition loopShape :: "opid \<times> forLoop \<Rightarrow> opid \<times> val list \<times> nat \<times> nat \<times> blockid \<times> val \<times> val \<times> val" where
  "loopShape x = (fst x, initArgs (snd x), length (regionIterArgTypes (snd x)),
                  length (resultTypes (snd x)), bodyBlock (snd x),
                  lowerBound (snd x), upperBound (snd x), loopStep (snd x))"

text \<open>
  A loop defines its results and the arguments of its body. The loops are in dominance
  order when no initial value of a loop is defined by that loop or by a later one.
\<close>

definition loopSig :: "opid \<times> forLoop \<Rightarrow> opid \<times> val list \<times> blockid" where
  "loopSig x = (fst x, initArgs (snd x), bodyBlock (snd x))"

fun definesValue :: "opid \<times> val list \<times> blockid \<Rightarrow> val \<Rightarrow> bool" where
  "definesValue (p, inits, b) (OpResult q i) = (q = p)"
| "definesValue (p, inits, b) (BlockArgument c i) = (c = b)"

fun orderedSigs :: "(opid \<times> val list \<times> blockid) list \<Rightarrow> bool" where
  "orderedSigs [] = True"
| "orderedSigs (x # xs) =
     (list_all (\<lambda>v. list_all (\<lambda>y. \<not> definesValue y v) (x # xs)) (fst (snd x)) \<and> orderedSigs xs)"

definition orderedLoops :: "moduleOp \<Rightarrow> bool" where
  "orderedLoops m = orderedSigs (map loopSig (forOps m))"

section \<open>Rewrite executor\<close>

text \<open>
  The IR as the rewrite executor changes it: the operations, the value types, the
  order of the operations in every block, the next unused operation id, the insertion
  point of the rewriter (a block and the operation before which new operations go, or
  the end of the block) and the \<^verbatim>\<open>IRMapping\<close>. The encoding of a tensor type is an
  \<^verbatim>\<open>Attribute\<close> that can be null: \<open>None\<close>.
\<close>

type_synonym rwTy = "layout option mlirType"

record rewriteState =
  rwOp :: "opid \<Rightarrow> operation"
  rwType :: "val \<Rightarrow> rwTy"
  blockOps :: "blockid \<Rightarrow> opid list"
  nextOp :: opid
  insertBlock :: blockid
  insertBefore :: "opid option"
  mapping :: "val \<Rightarrow> val option"

text \<open>
  What the executor calls in MLIR and what depends on the operation kind: the result
  of \<^verbatim>\<open>InferTypeOpInterface::inferReturnTypes\<close> (\<open>None\<close> when the operation has no such
  interface or the inference fails) and \<^verbatim>\<open>multiRootTopologicalSort\<close>. They are
  parameters.
\<close>

record mlir =
  inferReturnTypes :: "rewriteState \<Rightarrow> opid \<Rightarrow> rwTy list option"
  multiRootTopologicalSort :: "rewriteState \<Rightarrow> opid list \<Rightarrow> opid list"

definition insertOp :: "opid \<Rightarrow> opid option \<Rightarrow> opid list \<Rightarrow> opid list" where
  "insertOp p before ops =
     (case before of
        None \<Rightarrow> ops @ [p]
      | Some q \<Rightarrow> takeWhile (\<lambda>x. x \<noteq> q) ops @ p # dropWhile (\<lambda>x. x \<noteq> q) ops)"

definition insertAfter :: "opid \<Rightarrow> opid \<Rightarrow> opid list \<Rightarrow> opid list" where
  "insertAfter p q ops =
     takeWhile (\<lambda>x. x \<noteq> q) ops @
       (case dropWhile (\<lambda>x. x \<noteq> q) ops of [] \<Rightarrow> [p] | x # xs \<Rightarrow> x # p # xs)"

text \<open>
  A new operation gets the next id, is linked at the insertion point and its results
  get the given types.
\<close>

definition addOp :: "rewriteState \<Rightarrow> operation \<Rightarrow> rwTy list \<Rightarrow> rewriteState" where
  "addOp s op tys =
     s\<lparr>rwOp := (rwOp s)(nextOp s := op\<lparr>parentBlock := insertBlock s, numResults := length tys\<rparr>),
       rwType := (\<lambda>v. case v of
                    OpResult p i \<Rightarrow> if p = nextOp s \<and> i < length tys then tys ! i else rwType s v
                  | BlockArgument b i \<Rightarrow> rwType s v),
       blockOps := (blockOps s)(insertBlock s :=
                      insertOp (nextOp s) (insertBefore s) (blockOps s (insertBlock s))),
       nextOp := Suc (nextOp s)\<rparr>"

definition unlinkOp :: "rewriteState \<Rightarrow> opid \<Rightarrow> rewriteState" where
  "unlinkOp s p =
     s\<lparr>blockOps := (blockOps s)(parentBlock (rwOp s p) :=
                      remove1 p (blockOps s (parentBlock (rwOp s p))))\<rparr>"

definition moveAfter :: "rewriteState \<Rightarrow> opid \<Rightarrow> opid \<Rightarrow> rewriteState" where
  "moveAfter s p q =
     (let s1 = unlinkOp s p; b = parentBlock (rwOp s q) in
      s1\<lparr>blockOps := (blockOps s1)(b := insertAfter p q (blockOps s1 b)),
         rwOp := (rwOp s1)(p := (rwOp s1 p)\<lparr>parentBlock := b\<rparr>)\<rparr>)"

definition moveToStart :: "rewriteState \<Rightarrow> opid \<Rightarrow> blockid \<Rightarrow> rewriteState" where
  "moveToStart s p b =
     (let s1 = unlinkOp s p in
      s1\<lparr>blockOps := (blockOps s1)(b := p # blockOps s1 b),
         rwOp := (rwOp s1)(p := (rwOp s1 p)\<lparr>parentBlock := b\<rparr>)\<rparr>)"

definition lookupOrDefault :: "(val \<Rightarrow> val option) \<Rightarrow> val \<Rightarrow> val" where
  "lookupOrDefault m v = (case m v of Some w \<Rightarrow> w | None \<Rightarrow> v)"

text \<open>
  \<^verbatim>\<open>rewriter.clone(*op, mapping)\<close>: a copy with the operands looked up in the mapping
  and the result types of the original, linked at the insertion point; the results of
  the original are mapped to the results of the copy. The operations cloned here have
  no regions (the classifier never lets an operation with regions be processed), so
  no region is copied.
\<close>

definition clone :: "rewriteState \<Rightarrow> opid \<Rightarrow> rewriteState \<times> opid" where
  "clone s op =
     (let s1 = addOp s ((rwOp s op)\<lparr>operands := map (lookupOrDefault (mapping s))
                                                   (operands (rwOp s op))\<rparr>)
                 (map (\<lambda>i. rwType s (OpResult op i)) [0 ..< numResults (rwOp s op)])
      in (s1\<lparr>mapping := (\<lambda>v. case v of
                             OpResult p i \<Rightarrow>
                               if p = op \<and> i < numResults (rwOp s op)
                               then Some (OpResult (nextOp s) i) else mapping s v
                           | BlockArgument b i \<Rightarrow> mapping s v)\<rparr>,
          nextOp s))"

definition setTypes :: "rewriteState \<Rightarrow> opid \<Rightarrow> rwTy list \<Rightarrow> rewriteState" where
  "setTypes s p tys =
     s\<lparr>rwType := (\<lambda>v. case v of
                    OpResult q i \<Rightarrow> if q = p \<and> i < length tys then tys ! i else rwType s v
                  | BlockArgument b i \<Rightarrow> rwType s v)\<rparr>"

definition cloneWithInferType ::
  "mlir \<Rightarrow> rewriteState \<Rightarrow> opid \<Rightarrow> error + rewriteState \<times> opid" where
  "cloneWithInferType x s op =
     (case clone s op of
        (s1, newOp) \<Rightarrow>
          if list_all (\<lambda>v. case mapping s1 v of
                             None \<Rightarrow> True
                           | Some w \<Rightarrow> rwType s1 v = rwType s1 w) (operands (rwOp s1 op))
          then Inr (s1, newOp)
          else if numResults (rwOp s1 newOp) = 0 then Inr (s1, newOp)
          else
            (case operands (rwOp s1 newOp) of
               [] \<Rightarrow> Inl NoSuchOperand
             | arg0 # args \<Rightarrow>
                 (case rwType s1 (OpResult op 0) of
                    RankedTensorType oshape oelt oenc \<Rightarrow>
                      (case rwType s1 arg0 of
                         RankedTensorType ashape aelt aenc \<Rightarrow>
                           (let s2 = setTypes s1 newOp [RankedTensorType oshape oelt aenc] in
                            case inferReturnTypes x s2 newOp of
                              None \<Rightarrow> Inr (s2, newOp)
                            | Some newTypes \<Rightarrow>
                                if length newTypes > numResults (rwOp s2 newOp)
                                then Inl NoSuchResult
                                else Inr (setTypes s2 newOp newTypes, newOp))
                       | _ \<Rightarrow> Inr (s1, newOp))
                  | _ \<Rightarrow> Inr (s1, newOp))))"

definition convertLayoutOp :: "val \<Rightarrow> operation" where
  "convertLayoutOp v =
     \<lparr>kind = ConvertLayoutOp, operands = [v], numResults = 1, parentBlock = 0, regionOps = [],
      sameOperandsAndResultEncoding = False, elementwise = False\<rparr>"

text \<open>
  The body of the loop \<^verbatim>\<open>for (Value currOperand : sortedValues)\<close>. \<^verbatim>\<open>MapVector::lookup\<close>
  answers the null attribute for a value that has no entry in the plan, and the loop
  goes on with it: the conversion then produces a tensor type without encoding.
\<close>

definition rematerializeValue ::
  "mlir \<Rightarrow> (val \<times> layout) list \<Rightarrow> opid list \<Rightarrow> rewriteState \<Rightarrow> val \<Rightarrow> error + rewriteState" where
  "rematerializeValue x toConvertMap processedOps s origOperand =
     (let targetLayout = map_of toConvertMap origOperand in
      case (case getDefiningOp origOperand of
              None \<Rightarrow> Inr (s, None, origOperand)
            | Some currOperation \<Rightarrow>
                if currOperation \<in> set processedOps
                then (case cloneWithInferType x s currOperation of
                        Inl err \<Rightarrow> Inl err
                      | Inr (s1, newOperation) \<Rightarrow>
                          if numResults (rwOp s1 newOperation) = 0 then Inl NoSuchResult
                          else Inr (moveAfter s1 newOperation currOperation,
                                    Some newOperation, OpResult newOperation 0))
                else Inr (s, Some currOperation, origOperand)) of
        Inl err \<Rightarrow> Inl err
      | Inr (s2, currOperation, currOperand) \<Rightarrow>
          (case rwType s2 currOperand of
             RankedTensorType shape elt enc \<Rightarrow>
               (let newOperand = nextOp s2;
                    s3 = addOp s2 (convertLayoutOp currOperand)
                           [RankedTensorType shape elt targetLayout];
                    s4 = (case currOperation of
                            Some p \<Rightarrow> moveAfter s3 newOperand p
                          | None \<Rightarrow>
                              (case currOperand of
                                 BlockArgument block i \<Rightarrow> moveToStart s3 newOperand block
                               | OpResult p i \<Rightarrow> s3))
                in Inr (s4\<lparr>mapping := (mapping s4)(origOperand \<mapsto> OpResult newOperand 0)\<rparr>))
           | _ \<Rightarrow> Inl CastFailure))"

text \<open>The first loop: values without a producer go first, in the order of the plan.\<close>

fun splitPlan :: "(val \<times> layout) list \<Rightarrow> val list \<times> opid list \<Rightarrow> val list \<times> opid list" where
  "splitPlan [] acc = acc"
| "splitPlan ((v, l) # items) (sortedValues, tmp) =
     (case getDefiningOp v of
        Some p \<Rightarrow> splitPlan items (sortedValues, setInsert p tmp)
      | None \<Rightarrow> splitPlan items (sortedValues @ [v], tmp))"

fun firstResults :: "rewriteState \<Rightarrow> opid list \<Rightarrow> error + val list" where
  "firstResults s [] = Inr []"
| "firstResults s (p # ps) =
     (if numResults (rwOp s p) = 0 then Inl NoSuchResult
      else (case firstResults s ps of Inl err \<Rightarrow> Inl err | Inr vs \<Rightarrow> Inr (OpResult p 0 # vs)))"

fun rematerializeValues ::
  "mlir \<Rightarrow> (val \<times> layout) list \<Rightarrow> opid list \<Rightarrow> rewriteState \<Rightarrow> val list \<Rightarrow> error + rewriteState" where
  "rematerializeValues x toConvertMap processedOps s [] = Inr s"
| "rematerializeValues x toConvertMap processedOps s (v # vs) =
     (case rematerializeValue x toConvertMap processedOps s v of
        Inl err \<Rightarrow> Inl err
      | Inr s' \<Rightarrow> rematerializeValues x toConvertMap processedOps s' vs)"

definition rematerializeConversionChain ::
  "mlir \<Rightarrow> (val \<times> layout) list \<Rightarrow> opid list \<Rightarrow> rewriteState \<Rightarrow> error + rewriteState" where
  "rematerializeConversionChain x toConvertMap processedOps s =
     (case splitPlan toConvertMap ([], []) of
        (sortedValues, tmp) \<Rightarrow>
          (case firstResults s (multiRootTopologicalSort x s tmp) of
             Inl err \<Rightarrow> Inl err
           | Inr vs \<Rightarrow> rematerializeValues x toConvertMap processedOps s (sortedValues @ vs)))"


section \<open>Properties stated about the simulator\<close>

text \<open>
  The operand graph is block-local acyclic when some rank decreases along every operand
  edge whose producer lies in the block of the consumer. In SSA form the position of
  an operation in its block is such a rank.
\<close>

definition blockLocalAcyclic :: "graph \<Rightarrow> (opid \<Rightarrow> nat) \<Rightarrow> bool" where
  "blockLocalAcyclic g rk \<longleftrightarrow>
     (\<forall>p v q. v \<in> set (operands (opAt g p)) \<and> getDefiningOp v = Some q \<and>
              parentBlock (opAt g q) = parentBlock (opAt g p) \<longrightarrow> rk q < rk p)"

definition rankOf :: "(opid \<Rightarrow> nat) \<Rightarrow> opid option \<Rightarrow> nat" where
  "rankOf rk x = (case x of None \<Rightarrow> 0 | Some p \<Rightarrow> rk p)"

text \<open>
  Every operand of every processed operation has an entry in the value-to-layout map.
\<close>

definition operandsRecorded :: "graph \<Rightarrow> simstate \<Rightarrow> bool" where
  "operandsRecorded g st \<longleftrightarrow>
     (\<forall>p \<in> set (processed st). \<forall>v \<in> set (operands (opAt g p)). map_of (toConvert st) v \<noteq> None)"

section \<open>Example graphs\<close>

definition mkOp :: "opkind \<Rightarrow> val list \<Rightarrow> nat \<Rightarrow> blockid \<Rightarrow> operation" where
  "mkOp k args n b =
     \<lparr>kind = k, operands = args, numResults = n, parentBlock = b, regionOps = [],
      sameOperandsAndResultEncoding = False, elementwise = False\<rparr>"

definition env0 :: env where
  "env0 = \<lparr>isExpensiveCat = (\<lambda>p l. True), isSingleValue = (\<lambda>v. False),
            numWarps = 4, threadsPerWarp = 32\<rparr>"

definition tensorTy :: "layout \<Rightarrow> ty" where
  "tensorTy l = RankedTensorType [128] (ScalarType 32) l"

definition mkLoopGraph ::
  "(opid \<times> operation) list \<Rightarrow> (val \<times> ty) list \<Rightarrow> (val \<times> (opid \<times> nat) list) list \<Rightarrow>
   (blockid \<times> opid) list \<Rightarrow> (opid \<times> blockid) list \<Rightarrow> graph" where
  "mkLoopGraph ops tys us owners bodies =
     \<lparr>opAt = (\<lambda>p. case map_of ops p of Some x \<Rightarrow> x | None \<Rightarrow> mkOp (OtherOp ''unused'') [] 0 0),
      typeOf = (\<lambda>v. case map_of tys v of Some t \<Rightarrow> t | None \<Rightarrow> ScalarType 0),
      usesOf = (\<lambda>v. case map_of us v of Some u \<Rightarrow> u | None \<Rightarrow> []),
      blockOwner = map_of owners,
      forBody = (\<lambda>p. case map_of bodies p of Some b \<Rightarrow> b | None \<Rightarrow> 0)\<rparr>"

definition mkGraph ::
  "(opid \<times> operation) list \<Rightarrow> (val \<times> ty) list \<Rightarrow> (val \<times> (opid \<times> nat) list) list \<Rightarrow> graph" where
  "mkGraph ops tys us = mkLoopGraph ops tys us [] []"

text \<open>Scenario A: an elementwise add of two constants, all in block 0.\<close>

definition addGraph :: graph where
  "addGraph = mkGraph
     [(0, (mkOp (OtherOp ''arith.addf'') [OpResult 1 0, OpResult 2 0] 1 0)\<lparr>elementwise := True\<rparr>),
      (1, mkOp ConstantOp [] 1 0),
      (2, mkOp ConstantOp [] 1 0)]
     [(OpResult 0 0, tensorTy (Blocked [1])), (OpResult 1 0, tensorTy (Blocked [1])),
      (OpResult 2 0, tensorTy (Blocked [1]))]
     [(OpResult 1 0, [(0, 0)]), (OpResult 2 0, [(0, 1)])]"

text \<open>Scenario B: an atomic read-modify-write on a tensor of pointers and a value.\<close>

definition atomicGraph :: graph where
  "atomicGraph = mkGraph
     [(0, mkOp AtomicRMWOp [BlockArgument 0 0, BlockArgument 0 1] 1 0)]
     [(OpResult 0 0, tensorTy (Blocked [1])),
      (BlockArgument 0 0, RankedTensorType [128] (PointerType (ScalarType 32)) (Blocked [1])),
      (BlockArgument 0 1, tensorTy (Blocked [1]))]
     [(BlockArgument 0 0, [(0, 0)]), (BlockArgument 0 1, [(0, 1)])]"

text \<open>
  An add that uses the result of a negation twice; the negation reads a constant.
\<close>

definition twiceGraph :: graph where
  "twiceGraph = mkGraph
     [(0, (mkOp (OtherOp ''arith.addf'') [OpResult 1 0, OpResult 1 0] 1 0)\<lparr>elementwise := True\<rparr>),
      (1, (mkOp (OtherOp ''arith.negf'') [OpResult 2 0] 1 0)\<lparr>elementwise := True\<rparr>),
      (2, mkOp ConstantOp [] 1 0)]
     [(OpResult 0 0, tensorTy (Blocked [1])), (OpResult 1 0, tensorTy (Blocked [1])),
      (OpResult 2 0, tensorTy (Blocked [1]))]
     [(OpResult 1 0, [(0, 1), (0, 0)]), (OpResult 2 0, [(1, 0)])]"

text \<open>A reduction over axis 1 and a view, for the inversion rule.\<close>

definition reduceOp1 :: operation where
  "reduceOp1 = mkOp (ReduceOp 1) [BlockArgument 0 0] 1 0"

definition viewOp0 :: operation where
  "viewOp0 = mkOp ViewOp [BlockArgument 0 0] 1 0"

definition catOp0 :: operation where
  "catOp0 = mkOp CatOp [BlockArgument 0 0, BlockArgument 0 1] 1 0"

text \<open>A splat of a scalar block argument: an operand that is not tensor-typed.\<close>

definition splatGraph :: graph where
  "splatGraph = mkGraph
     [(0, mkOp SplatOp [BlockArgument 0 0] 1 0)]
     [(OpResult 0 0, tensorTy (Blocked [1])), (BlockArgument 0 0, ScalarType 32)]
     [(BlockArgument 0 0, [(0, 0)])]"

text \<open>
  A loop (operation 10, body block 1) whose iteration argument, block argument 1 of
  the body, is added to the result of a dot (operation 1) by operation 2; the sum is
  yielded by operation 3. The operands of the dot are defined outside the loop.
\<close>

definition loopGraph :: graph where
  "loopGraph = mkLoopGraph
     [(10, (mkOp ForOp [BlockArgument 0 0, BlockArgument 0 1, BlockArgument 0 2, OpResult 20 0] 1 0)
             \<lparr>regionOps := [1, 2, 3]\<rparr>),
      (1, mkOp DotOp [OpResult 21 0, OpResult 22 0, OpResult 23 0] 1 1),
      (2, (mkOp (OtherOp ''arith.addf'') [BlockArgument 1 1, OpResult 1 0] 1 1)\<lparr>elementwise := True\<rparr>),
      (3, mkOp YieldOp [OpResult 2 0] 0 1),
      (20, mkOp ConstantOp [] 1 0), (21, mkOp ConstantOp [] 1 0),
      (22, mkOp ConstantOp [] 1 0), (23, mkOp ConstantOp [] 1 0)]
     [(BlockArgument 1 1, tensorTy (Blocked [1])), (OpResult 1 0, tensorTy (Blocked [1])),
      (OpResult 2 0, tensorTy (Blocked [1])), (OpResult 10 0, tensorTy (Blocked [1])),
      (OpResult 20 0, tensorTy (Blocked [1])), (OpResult 21 0, tensorTy (DotOperand 0 (Mma [2]))),
      (OpResult 22 0, tensorTy (DotOperand 1 (Mma [2]))), (OpResult 23 0, tensorTy (Blocked [1]))]
     [(BlockArgument 1 1, [(2, 0)]), (OpResult 1 0, [(2, 1)]), (OpResult 2 0, [(3, 0)]),
      (OpResult 20 0, [(10, 3)]), (OpResult 21 0, [(1, 0)]), (OpResult 22 0, [(1, 1)]),
      (OpResult 23 0, [(1, 2)]),
      (BlockArgument 0 0, [(10, 0)]), (BlockArgument 0 1, [(10, 1)]), (BlockArgument 0 2, [(10, 2)])]
     [(1, 10)] [(10, 1)]"

text \<open>
  Scenario C: a loop (operation 10, body block 1) whose iteration argument is read
  only by operation 1, a conversion into a shared layout with vectorisation factor 1,
  and by operation 2, a conversion from the shared layout of the argument into a
  dot-operand layout. The loop yields a value defined outside.
\<close>

definition sharedLoopGraph :: graph where
  "sharedLoopGraph = mkLoopGraph
     [(10, (mkOp ForOp [BlockArgument 0 0, BlockArgument 0 1, BlockArgument 0 2, OpResult 20 0] 1 0)
             \<lparr>regionOps := [1, 2, 3]\<rparr>),
      (1, mkOp ConvertLayoutOp [BlockArgument 1 1] 1 1),
      (2, mkOp ConvertLayoutOp [BlockArgument 1 1] 1 1),
      (3, mkOp YieldOp [OpResult 20 0] 0 1),
      (20, mkOp ConstantOp [] 1 0)]
     [(BlockArgument 1 1, tensorTy (Shared 8 [2])), (OpResult 1 0, tensorTy (Shared 1 [3])),
      (OpResult 2 0, tensorTy (DotOperand 0 (Mma [2]))),
      (OpResult 10 0, tensorTy (Shared 8 [2])), (OpResult 20 0, tensorTy (Shared 8 [2]))]
     [(BlockArgument 1 1, [(2, 0), (1, 0)]), (OpResult 20 0, [(3, 0), (10, 3)]),
      (BlockArgument 0 0, [(10, 0)]), (BlockArgument 0 1, [(10, 1)]), (BlockArgument 0 2, [(10, 2)])]
     [(1, 10)] [(10, 1)]"

text \<open>
  Two loops in sequence. The first is declared with layout A while its initial value has
  layout B; the second starts from the result of the first.
\<close>

definition layoutA :: layout where "layoutA = Blocked [1]"
definition layoutB :: layout where "layoutB = Blocked [2]"

definition mkFor :: "val \<Rightarrow> ty \<Rightarrow> ty \<Rightarrow> blockid \<Rightarrow> forLoop" where
  "mkFor init iterTy resTy b =
     \<lparr>lowerBound = BlockArgument 0 0, upperBound = BlockArgument 0 1,
      loopStep = BlockArgument 0 2, initArgs = [init], regionIterArgTypes = [iterTy],
      resultTypes = [resTy], bodyBlock = b\<rparr>"

definition staleModule :: moduleOp where
  "staleModule =
     \<lparr>forOps = [(10, mkFor (OpResult 1 0) (tensorTy layoutA) (tensorTy layoutA) 1),
                (11, mkFor (OpResult 10 0) (tensorTy layoutA) (tensorTy layoutA) 2)],
      otherTypes = (\<lambda>v. if v = OpResult 1 0 then tensorTy layoutB else ScalarType 64)\<rparr>"

definition fixedModule :: moduleOp where
  "fixedModule =
     \<lparr>forOps = [(10, mkFor (OpResult 1 0) (tensorTy layoutB) (tensorTy layoutB) 1),
                (11, mkFor (OpResult 10 0) (tensorTy layoutB) (tensorTy layoutB) 2)],
      otherTypes = (\<lambda>v. if v = OpResult 1 0 then tensorTy layoutB else ScalarType 64)\<rparr>"

definition halfFixedModule :: moduleOp where
  "halfFixedModule =
     \<lparr>forOps = [(10, mkFor (OpResult 1 0) (tensorTy layoutB) (tensorTy layoutB) 1),
                (11, mkFor (OpResult 10 0) (tensorTy layoutA) (tensorTy layoutA) 2)],
      otherTypes = (\<lambda>v. if v = OpResult 1 0 then tensorTy layoutB else ScalarType 64)\<rparr>"

text \<open>
  A block with a negation of a block argument (operation 5), a plan that asks for
  layout B on the result of the negation and on the block argument, and the rewriter
  standing at the end of the block.
\<close>

definition rwTensorTy :: "layout option \<Rightarrow> rwTy" where
  "rwTensorTy l = RankedTensorType [128] (ScalarType 32) l"

definition noMlir :: mlir where
  "noMlir = \<lparr>inferReturnTypes = (\<lambda>s p. None), multiRootTopologicalSort = (\<lambda>s ps. ps)\<rparr>"

definition negState :: rewriteState where
  "negState =
     \<lparr>rwOp = (\<lambda>p. (mkOp (OtherOp ''arith.negf'') [BlockArgument 0 0] 1 0)\<lparr>elementwise := True\<rparr>),
      rwType = (\<lambda>v. rwTensorTy (Some layoutA)),
      blockOps = (\<lambda>b. if b = 0 then [5] else []),
      nextOp = 6,
      insertBlock = 0,
      insertBefore = None,
      mapping = Map.empty\<rparr>"

definition negPlan :: "(val \<times> layout) list" where
  "negPlan = [(OpResult 5 0, layoutB), (BlockArgument 0 0, layoutB)]"



text \<open>The same block with an operation of two results in place of the negation.\<close>

definition pairState :: rewriteState where
  "pairState = negState\<lparr>rwOp := (\<lambda>p. mkOp (OtherOp ''pair'') [BlockArgument 0 0] 2 0)\<rparr>"

section \<open>Evaluation rules\<close>

lemmas fixture_defs = mkGraph_def mkLoopGraph_def mkOp_def env0_def emptyState_def tensorTy_def
  addGraph_def atomicGraph_def twiceGraph_def reduceOp1_def viewOp0_def catOp0_def
  splatGraph_def loopGraph_def sharedLoopGraph_def

lemmas sim_defs = simulateStep_def isExpensiveToRemat_def isExpensiveLoadOrStore_def
  canFoldConversion_def invertEncoding_def setInsert_def mapInsert_def
  simulateBackwardRematerialization_def getNumElements_def mulInt32_def

section \<open>Properties of the layout inversion rule\<close>

text \<open>
  C4. For a reduction over axis \<open>a\<close> and a desired result layout \<open>L\<close>, the inversion
  succeeds with \<open>r\<close> exactly when \<open>L\<close> is the slice encoding of dimension \<open>a\<close> with
  parent \<open>r\<close>, and fails exactly when \<open>L\<close> is no slice encoding of dimension \<open>a\<close>; for a
  view and for a concatenation it fails for every \<open>L\<close>.
\<close>

theorem invertEncoding_reduce_view_cat:
  "(kind op = ReduceOp a \<longrightarrow>
      (invertEncoding L op = Some r \<longleftrightarrow> L = Slice a r) \<and>
      (invertEncoding L op = None \<longleftrightarrow> (\<forall>parent. L \<noteq> Slice a parent))) \<and>
   (kind op = ViewOp \<or> kind op = CatOp \<longrightarrow> invertEncoding L op = None)"
  by (auto simp: invertEncoding_def split: layout.splits)

theorem invertEncoding_reduce_view_cat_witness:
  "kind reduceOp1 = ReduceOp 1 \<and>
   invertEncoding (Slice 1 (Blocked [4])) reduceOp1 = Some (Blocked [4]) \<and>
   invertEncoding (Slice 0 (Blocked [4])) reduceOp1 = None \<and>
   invertEncoding (Blocked [4]) reduceOp1 = None \<and>
   kind viewOp0 = ViewOp \<and> invertEncoding (Slice 1 (Blocked [4])) viewOp0 = None \<and>
   kind catOp0 = CatOp \<and> invertEncoding (Slice 1 (Blocked [4])) catOp0 = None"
  using invertEncoding_reduce_view_cat [of reduceOp1 1 "Slice 1 (Blocked [4])" "Blocked [4]"]
    invertEncoding_reduce_view_cat [of reduceOp1 1 "Slice 0 (Blocked [4])" "Blocked [4]"]
    invertEncoding_reduce_view_cat [of reduceOp1 1 "Blocked [4]" "Blocked [4]"]
    invertEncoding_reduce_view_cat [of viewOp0 0 "Slice 1 (Blocked [4])" "Blocked [4]"]
    invertEncoding_reduce_view_cat [of catOp0 0 "Slice 1 (Blocked [4])" "Blocked [4]"]
  by (simp add: reduceOp1_def viewOp0_def catOp0_def mkOp_def)

section \<open>Properties of the backward simulator\<close>

text \<open>The product of the two module attributes wraps around at 32 bits.\<close>

lemma mulInt32_wraps: "mulInt32 4 32 = 128 \<and> mulInt32 65536 65536 = 0"
  by (simp add: mulInt32_def)

lemma simulateLoop_expensive:
  "isExpensiveToRemat e g currOp currLayout = Inr True \<Longrightarrow>
   simulateLoop e g ((currOp, currLayout) # rest) numCvts st = Some (Inr (numCvts, st))"
  by (subst simulateLoop.simps) (simp add: simulateStep_def)

lemma atomic_expensive:
  "isExpensiveToRemat env0 atomicGraph (Some 0) (Blocked [2]) = Inr True"
  by (simp add: isExpensiveToRemat_def atomicGraph_def mkGraph_def mkLoopGraph_def mkOp_def)

text \<open>
  C9. The classifier answers "expensive" for the null operation, so a walk seeded with
  no producing operation leaves the loop at its first iteration: it returns the initial
  counter 1 with the in-out parameters as they were, and the null operation is never
  dereferenced (the result is not the error \<open>NullOperation\<close>).
\<close>

theorem null_seed_stops:
  "isExpensiveToRemat e g None targetEncoding = Inr True \<and>
   simulateStep e g [(None, targetEncoding)] 1 st = Return (Inr (1, st)) \<and>
   simulateBackwardRematerialization e g None st targetEncoding = Some (Inr (1, st))"
  by (simp add: simulateBackwardRematerialization_def simulateLoop_expensive
      isExpensiveToRemat_def simulateStep_def)

theorem null_seed_stops_witness:
  "simulateBackwardRematerialization env0 addGraph None emptyState (Blocked [2])
     = Some (Inr (1, emptyState))"
  using null_seed_stops [of env0 addGraph "Blocked [2]" emptyState] by simp

text \<open>
  C1, as the code has it. When the seed is classified expensive under the target layout,
  the first iteration leaves the loop through \<^verbatim>\<open>break\<close>: the simulator returns the
  initial counter 1, not \<^verbatim>\<open>INT_MAX\<close>, and the three in-out parameters are unchanged.
  The simulator has no access to the IR other than reading it.
\<close>

theorem expensive_seed_returns_one:
  "isExpensiveToRemat e g initOp targetEncoding = Inr True \<Longrightarrow>
   simulateStep e g [(initOp, targetEncoding)] 1 st = Return (Inr (1, st)) \<and>
   simulateBackwardRematerialization e g initOp st targetEncoding = Some (Inr (1, st))"
  by (simp add: simulateBackwardRematerialization_def simulateLoop_expensive simulateStep_def)

theorem expensive_seed_returns_one_witness:
  "isExpensiveToRemat env0 atomicGraph (Some 0) (Blocked [2]) = Inr True \<and>
   simulateBackwardRematerialization env0 atomicGraph (Some 0) emptyState (Blocked [2])
     = Some (Inr (1, emptyState))"
  using expensive_seed_returns_one [OF atomic_expensive, of emptyState] atomic_expensive by simp

text \<open>
  C1 as stated fails: seeded at an atomic read-modify-write, which the classifier marks
  expensive, the simulator returns 1 and not the sentinel \<^verbatim>\<open>INT_MAX\<close>.
\<close>

theorem expensive_seed_not_sentinel:
  "kind (opAt atomicGraph 0) = AtomicRMWOp \<and>
   isExpensiveToRemat env0 atomicGraph (Some 0) (Blocked [2]) = Inr True \<and>
   simulateBackwardRematerialization env0 atomicGraph (Some 0) emptyState (Blocked [2])
     = Some (Inr (1, emptyState)) \<and>
   simulateBackwardRematerialization env0 atomicGraph (Some 0) emptyState (Blocked [2])
     \<noteq> Some (Inr (INT_MAX, emptyState))"
  by (simp add: simulateBackwardRematerialization_def simulateLoop_expensive atomic_expensive
        INT_MAX_def)
     (simp add: atomicGraph_def mkGraph_def mkLoopGraph_def mkOp_def)

lemma map_of_mapInsert:
  "map_of (mapInsert k v m) x =
     (case map_of m x of Some w \<Rightarrow> Some w | None \<Rightarrow> if x = k then Some v else None)"
  by (cases "map_of m k"; cases "map_of m x") (auto simp: mapInsert_def map_add_def)

lemma visitOperands_processed:
  "visitOperands e g p L args q n st = Continue q' n' st' \<Longrightarrow>
   processed st' = processed st \<and> layout st' = layout st"
  by (induction args arbitrary: q n st)
     (auto simp: Let_def split: option.splits if_splits)



lemma visitOperands_Cons_Continue:
  assumes "visitOperands e g p L (a # args) q n st = Continue q' n' st'"
  obtains l where "invertEncoding L (opAt g p) = Some l"
    and "map_of (toConvert st) a = None \<or> map_of (toConvert st) a = Some l"
    and "\<not> isPointerToTensor (typeOf g a)"
    and "visitOperands e g p L args q n (st\<lparr>toConvert := mapInsert a l (toConvert st)\<rparr>)
           = Continue q' n' st' \<or>
         (\<exists>r. getDefiningOp a = Some r \<and> isRankedTensor (typeOf g a) \<and>
              r \<notin> set (processed st) \<and>
              parentBlock (opAt g r) = parentBlock (opAt g p) \<and>
              \<not> canFoldConversion e g r l \<and>
              visitOperands e g p L args ((Some r, l) # q) (n + 1)
                (st\<lparr>toConvert := mapInsert a l (toConvert st)\<rparr>) = Continue q' n' st')"
proof -
  obtain l where l: "invertEncoding L (opAt g p) = Some l"
    using assms by (cases "invertEncoding L (opAt g p)") simp_all
  have c: "map_of (toConvert st) a = None \<or> map_of (toConvert st) a = Some l"
    using assms l by (cases "map_of (toConvert st) a") (simp_all split: if_splits)
  then have c': "\<not> (case map_of (toConvert st) a of None \<Rightarrow> False | Some enc \<Rightarrow> enc \<noteq> l)"
    by auto
  have pt: "\<not> isPointerToTensor (typeOf g a)"
    using assms l c' by (simp split: if_splits)
  show ?thesis
  proof (cases "getDefiningOp a")
    case None
    with assms l c' pt show ?thesis by (intro that [of l]) (simp_all add: Let_def c)
  next
    case (Some r)
    with assms l c' pt show ?thesis
      by (intro that [of l]) (simp_all add: Let_def c split: if_splits)
  qed
qed


lemma visitOperands_keeps:
  "visitOperands e g p L args q n st = Continue q' n' st' \<Longrightarrow>
   map_of (toConvert st) v = Some l \<Longrightarrow> map_of (toConvert st') v = Some l"
proof (induction args arbitrary: q n st)
  case Nil
  then show ?case by simp
next
  case (Cons a args)
  from Cons.prems(1) show ?case
  proof (rule visitOperands_Cons_Continue)
    fix k
    let ?st = "st\<lparr>toConvert := mapInsert a k (toConvert st)\<rparr>"
    have keep: "map_of (toConvert ?st) v = Some l"
      using Cons.prems(2) by (simp add: map_of_mapInsert)
    assume "visitOperands e g p L args q n ?st = Continue q' n' st' \<or>
         (\<exists>r. getDefiningOp a = Some r \<and> isRankedTensor (typeOf g a) \<and>
              r \<notin> set (processed st) \<and>
              parentBlock (opAt g r) = parentBlock (opAt g p) \<and>
              \<not> canFoldConversion e g r k \<and>
              visitOperands e g p L args ((Some r, k) # q) (n + 1) ?st = Continue q' n' st')"
    then show ?thesis
      using Cons.IH [OF _ keep] by blast
  qed
qed

lemma visitOperands_records:
  "visitOperands e g p L args q n st = Continue q' n' st' \<Longrightarrow> v \<in> set args \<Longrightarrow>
   map_of (toConvert st') v = invertEncoding L (opAt g p) \<and> invertEncoding L (opAt g p) \<noteq> None"
proof (induction args arbitrary: q n st)
  case Nil
  then show ?case by simp
next
  case (Cons a args)
  from Cons.prems(1) show ?case
  proof (rule visitOperands_Cons_Continue)
    fix k
    let ?st = "st\<lparr>toConvert := mapInsert a k (toConvert st)\<rparr>"
    assume k: "invertEncoding L (opAt g p) = Some k"
      and ok: "map_of (toConvert st) a = None \<or> map_of (toConvert st) a = Some k"
      and "visitOperands e g p L args q n ?st = Continue q' n' st' \<or>
         (\<exists>r. getDefiningOp a = Some r \<and> isRankedTensor (typeOf g a) \<and>
              r \<notin> set (processed st) \<and>
              parentBlock (opAt g r) = parentBlock (opAt g p) \<and>
              \<not> canFoldConversion e g r k \<and>
              visitOperands e g p L args ((Some r, k) # q) (n + 1) ?st = Continue q' n' st')"
    then obtain q1 n1 where rest: "visitOperands e g p L args q1 n1 ?st = Continue q' n' st'"
      by blast
    show ?thesis
    proof (cases "v \<in> set args")
      case True
      from Cons.IH [OF rest True] show ?thesis .
    next
      case False
      with Cons.prems(2) have "v = a" by simp
      moreover have "map_of (toConvert ?st) a = Some k"
        using ok by (auto simp: map_of_mapInsert)
      ultimately show ?thesis
        using visitOperands_keeps [OF rest] k by simp
    qed
  qed
qed

lemma visitOperands_pushed:
  "visitOperands e g p L args q n st = Continue q' n' st' \<Longrightarrow>
   \<exists>pushed. q' = pushed @ q \<and> n' = n + int (length pushed) \<and>
     (\<forall>x \<in> set pushed. \<exists>v r. v \<in> set args \<and> getDefiningOp v = Some r \<and> fst x = Some r \<and>
         r \<notin> set (processed st) \<and> parentBlock (opAt g r) = parentBlock (opAt g p))"
proof (induction args arbitrary: q n st)
  case Nil
  then show ?case by simp
next
  case (Cons a args)
  from Cons.prems(1) show ?case
  proof (rule visitOperands_Cons_Continue)
    fix k
    let ?st = "st\<lparr>toConvert := mapInsert a k (toConvert st)\<rparr>"
    have pr: "processed ?st = processed st" by simp
    assume "visitOperands e g p L args q n ?st = Continue q' n' st' \<or>
         (\<exists>r. getDefiningOp a = Some r \<and> isRankedTensor (typeOf g a) \<and>
              r \<notin> set (processed st) \<and>
              parentBlock (opAt g r) = parentBlock (opAt g p) \<and>
              \<not> canFoldConversion e g r k \<and>
              visitOperands e g p L args ((Some r, k) # q) (n + 1) ?st = Continue q' n' st')"
    then show ?thesis
    proof (elim disjE exE conjE)
      assume skip: "visitOperands e g p L args q n ?st = Continue q' n' st'"
      from Cons.IH [OF skip] obtain pushed where
        p: "q' = pushed @ q" "n' = n + int (length pushed)"
          "\<forall>x \<in> set pushed. \<exists>v r. v \<in> set args \<and> getDefiningOp v = Some r \<and> fst x = Some r \<and>
             r \<notin> set (processed st) \<and> parentBlock (opAt g r) = parentBlock (opAt g p)"
        unfolding pr by blast
      from p(3) have "\<forall>x \<in> set pushed. \<exists>v r. v \<in> set (a # args) \<and> getDefiningOp v = Some r \<and>
             fst x = Some r \<and> r \<notin> set (processed st) \<and>
             parentBlock (opAt g r) = parentBlock (opAt g p)"
        by (meson list.set_intros(2))
      with p(1,2) show ?thesis by blast
    next
      fix r
      assume r: "getDefiningOp a = Some r" "r \<notin> set (processed st)"
        "parentBlock (opAt g r) = parentBlock (opAt g p)"
        and push: "visitOperands e g p L args ((Some r, k) # q) (n + 1) ?st = Continue q' n' st'"
      from Cons.IH [OF push] obtain pushed where
        p: "q' = pushed @ (Some r, k) # q" "n' = n + 1 + int (length pushed)"
          "\<forall>x \<in> set pushed. \<exists>v r. v \<in> set args \<and> getDefiningOp v = Some r \<and> fst x = Some r \<and>
             r \<notin> set (processed st) \<and> parentBlock (opAt g r) = parentBlock (opAt g p)"
        unfolding pr by blast
      have "\<forall>x \<in> set (pushed @ [(Some r, k)]). \<exists>v r. v \<in> set (a # args) \<and>
             getDefiningOp v = Some r \<and> fst x = Some r \<and> r \<notin> set (processed st) \<and>
             parentBlock (opAt g r) = parentBlock (opAt g p)"
      proof
        fix x assume "x \<in> set (pushed @ [(Some r, k)])"
        then consider "x \<in> set pushed" | "x = (Some r, k)" by auto
        then show "\<exists>v r. v \<in> set (a # args) \<and> getDefiningOp v = Some r \<and> fst x = Some r \<and>
             r \<notin> set (processed st) \<and> parentBlock (opAt g r) = parentBlock (opAt g p)"
        proof cases
          case 1
          with p(3) show ?thesis by (meson list.set_intros(2))
        next
          case 2
          with r show ?thesis by (intro exI [of _ a] exI [of _ r]) simp
        qed
      qed
      moreover have "q' = (pushed @ [(Some r, k)]) @ q" using p(1) by simp
      moreover have "n' = n + int (length (pushed @ [(Some r, k)]))" using p(2) by simp
      ultimately show ?thesis by blast
    qed
  qed
qed

lemma simulateStep_Again:
  assumes "simulateStep e g queue n st = Again q' n' st'"
  obtains p L rest where "queue = (Some p, L) # rest"
    and "isExpensiveToRemat e g (Some p) L = Inr False"
    and "visitOperands e g p L (operands (opAt g p)) rest (n - 1)
           (st\<lparr>processed := setInsert p (processed st), layout := setInsert L (layout st)\<rparr>)
         = Continue q' n' st'"
proof (cases queue)
  case Nil
  with assms show ?thesis by (simp add: simulateStep_def)
next
  case (Cons x rest)
  obtain c L where x: "x = (c, L)" by (cases x)
  show ?thesis
  proof (cases "isExpensiveToRemat e g c L")
    case (Inl err)
    with assms Cons x show ?thesis by (simp add: simulateStep_def)
  next
    case (Inr b)
    with assms Cons x have b: "\<not> b" by (auto simp: simulateStep_def)
    show ?thesis
    proof (cases c)
      case None
      with assms Cons x Inr b show ?thesis by (simp add: simulateStep_def)
    next
      case (Some p)
      with assms Cons x Inr b show ?thesis
        by (intro that [of p L rest]) (simp_all add: simulateStep_def split: walk.splits)
    qed
  qed
qed

lemma set_setInsert: "set (setInsert x xs) = insert x (set xs)"
  by (auto simp: setInsert_def)

lemma simulateStep_recorded:
  assumes step: "simulateStep e g queue n st = Again q' n' st'"
    and inv: "operandsRecorded g st"
  shows "operandsRecorded g st'"
  using step
proof (rule simulateStep_Again)
  fix p L rest
  let ?st = "st\<lparr>processed := setInsert p (processed st), layout := setInsert L (layout st)\<rparr>"
  assume v: "visitOperands e g p L (operands (opAt g p)) rest (n - 1) ?st = Continue q' n' st'"
  have pr: "set (processed st') = insert p (set (processed st))"
    using visitOperands_processed [OF v] by (simp add: set_setInsert)
  show ?thesis
    unfolding operandsRecorded_def
  proof (intro ballI)
    fix r w assume r: "r \<in> set (processed st')" and w: "w \<in> set (operands (opAt g r))"
    show "map_of (toConvert st') w \<noteq> None"
    proof (cases "r = p")
      case True
      with visitOperands_records [OF v, of w] w show ?thesis by auto
    next
      case False
      with r pr have "r \<in> set (processed st)" by simp
      with inv w obtain l where "map_of (toConvert st) w = Some l"
        unfolding operandsRecorded_def by blast
      then have "map_of (toConvert ?st) w = Some l" by simp
      from visitOperands_keeps [OF v this] show ?thesis by simp
    qed
  qed
qed

lemma simulateStep_Return_recorded:
  assumes "simulateStep e g queue n st = Return (Inr (m, st'))" and "m \<noteq> INT_MAX"
    and "operandsRecorded g st"
  shows "operandsRecorded g st'"
proof -
  have "st' = st"
    using assms(1,2)
    by (auto simp: simulateStep_def split: list.splits sum.splits if_splits option.splits walk.splits)
  with assms(3) show ?thesis by simp
qed

lemma simulateLoop_recorded:
  assumes run: "simulateLoop e g queue n st = Some r"
  shows "operandsRecorded g st \<longrightarrow>
         (\<forall>m st'. r = Inr (m, st') \<and> m \<noteq> INT_MAX \<longrightarrow> operandsRecorded g st')"
proof -
  let ?P = "\<lambda>(e::env) g (queue::(opid option \<times> layout) list) (n::int) st r.
      operandsRecorded g st \<longrightarrow>
        (\<forall>m st'. r = Inr (m, st') \<and> m \<noteq> INT_MAX \<longrightarrow> operandsRecorded g st')"
  have step: "?P e g queue n st r"
    if IH: "\<And>e g queue n st r. loop e g queue n st = Some r \<Longrightarrow> ?P e g queue n st r"
      and eq: "(case simulateStep e g queue n st of
                  Return r \<Rightarrow> Some r
                | Again queue' numCvts' st' \<Rightarrow> loop e g queue' numCvts' st') = Some r"
    for loop e g queue n st r
  proof (cases "simulateStep e g queue n st")
    case (Return x)
    with eq have ret: "simulateStep e g queue n st = Return r" by simp
    show ?thesis
    proof (intro impI allI, elim conjE)
      fix m st' assume "operandsRecorded g st" "r = Inr (m, st')" "m \<noteq> INT_MAX"
      with ret show "operandsRecorded g st'"
        using simulateStep_Return_recorded [of e g queue n st m st'] by simp
    qed
  next
    case (Again q' n' st')
    with eq have "loop e g q' n' st' = Some r" by simp
    from IH [OF this] simulateStep_recorded [OF Again] show ?thesis by blast
  qed
  show ?thesis
    by (rule simulateLoop.raw_induct [where P = ?P, OF step run])
qed

lemma visitOperands_all_fold:
  assumes inv: "invertEncoding L (opAt g p) = Some L"
    and ops: "\<forall>v \<in> set args. (\<exists>r. getDefiningOp v = Some r \<and> canFoldConversion e g r L) \<and>
                \<not> isPointerToTensor (typeOf g v) \<and>
                (map_of (toConvert st) v = None \<or> map_of (toConvert st) v = Some L)"
  shows "\<exists>st'. visitOperands e g p L args q n st = Continue q n st'"
  using ops
proof (induction args arbitrary: st)
  case Nil
  then show ?case by simp
next
  case (Cons a args)
  let ?st = "st\<lparr>toConvert := mapInsert a L (toConvert st)\<rparr>"
  from Cons.prems obtain r where r: "getDefiningOp a = Some r" "canFoldConversion e g r L"
    and pt: "\<not> isPointerToTensor (typeOf g a)"
    and c: "map_of (toConvert st) a = None \<or> map_of (toConvert st) a = Some L"
    by auto
  have c': "\<not> (case map_of (toConvert st) a of None \<Rightarrow> False | Some enc \<Rightarrow> enc \<noteq> L)"
    using c by auto
  have "\<forall>v \<in> set args. (\<exists>r. getDefiningOp v = Some r \<and> canFoldConversion e g r L) \<and>
                \<not> isPointerToTensor (typeOf g v) \<and>
                (map_of (toConvert ?st) v = None \<or> map_of (toConvert ?st) v = Some L)"
    using Cons.prems by (auto simp: map_of_mapInsert split: option.splits)
  from Cons.IH [OF this] obtain st' where
    "visitOperands e g p L args q n ?st = Continue q n st'" by blast
  then have "visitOperands e g p L (a # args) q n st = Continue q n st'"
    using inv c' pt r by (simp add: Let_def)
  then show ?case by blast
qed

text \<open>
  C5. Let the seed be cheap, let its inversion be the identity on the target layout,
  and let every operand have a producer into which the conversion folds. Then the
  simulator returns 0, the seed is marked processed and the target layout is recorded
  for every operand. Two side conditions come from the operand loop: no operand is a
  pointer to a tensor (no foldable producer yields one in well-typed IR), and no
  operand enters with a different layout recorded (none does when the map is empty).
\<close>

theorem foldable_operands_delta_zero:
  assumes cheap: "isExpensiveToRemat e g (Some p) targetEncoding = Inr False"
    and inv: "invertEncoding targetEncoding (opAt g p) = Some targetEncoding"
    and fold: "\<forall>v \<in> set (operands (opAt g p)).
                 \<exists>r. getDefiningOp v = Some r \<and> canFoldConversion e g r targetEncoding"
    and typed: "\<forall>v \<in> set (operands (opAt g p)). \<not> isPointerToTensor (typeOf g v)"
    and fresh: "\<forall>v \<in> set (operands (opAt g p)).
                 map_of (toConvert st) v = None \<or> map_of (toConvert st) v = Some targetEncoding"
  shows "\<exists>st'. simulateBackwardRematerialization e g (Some p) st targetEncoding
                  = Some (Inr (0, st')) \<and>
               p \<in> set (processed st') \<and>
               (\<forall>v \<in> set (operands (opAt g p)). map_of (toConvert st') v = Some targetEncoding)"
proof -
  let ?st = "st\<lparr>processed := setInsert p (processed st),
                 layout := setInsert targetEncoding (layout st)\<rparr>"
  have "\<forall>v \<in> set (operands (opAt g p)).
          (\<exists>r. getDefiningOp v = Some r \<and> canFoldConversion e g r targetEncoding) \<and>
          \<not> isPointerToTensor (typeOf g v) \<and>
          (map_of (toConvert ?st) v = None \<or> map_of (toConvert ?st) v = Some targetEncoding)"
    using fold typed fresh by simp
  from visitOperands_all_fold [OF inv this] obtain st' where
    v: "visitOperands e g p targetEncoding (operands (opAt g p)) [] 0 ?st = Continue [] 0 st'"
    by blast
  have step: "simulateStep e g [(Some p, targetEncoding)] 1 st = Again [] 0 st'"
    using cheap v by (simp add: simulateStep_def)
  have "simulateBackwardRematerialization e g (Some p) st targetEncoding = Some (Inr (0, st'))"
    unfolding simulateBackwardRematerialization_def
    by (subst simulateLoop.simps, simp add: step, subst simulateLoop.simps, simp add: simulateStep_def)
  moreover have "p \<in> set (processed st')"
    using visitOperands_processed [OF v] by (simp add: set_setInsert)
  moreover have "\<forall>v \<in> set (operands (opAt g p)). map_of (toConvert st') v = Some targetEncoding"
    using visitOperands_records [OF v] inv by simp
  ultimately show ?thesis by blast
qed

lemma add_run:
  "simulateBackwardRematerialization env0 addGraph (Some 0) emptyState (Blocked [2])
     = Some (Inr (0, \<lparr>processed = [0], layout = [Blocked [2]],
          toConvert = [(OpResult 1 0, Blocked [2]), (OpResult 2 0, Blocked [2])]\<rparr>))"
  by (simp add: simulateLoop.simps sim_defs fixture_defs)

theorem foldable_operands_delta_zero_witness:
  "isExpensiveToRemat env0 addGraph (Some 0) (Blocked [2]) = Inr False \<and>
   invertEncoding (Blocked [2]) (opAt addGraph 0) = Some (Blocked [2]) \<and>
   operands (opAt addGraph 0) = [OpResult 1 0, OpResult 2 0] \<and>
   canFoldConversion env0 addGraph 1 (Blocked [2]) \<and>
   canFoldConversion env0 addGraph 2 (Blocked [2]) \<and>
   (\<exists>st'. simulateBackwardRematerialization env0 addGraph (Some 0) emptyState (Blocked [2])
             = Some (Inr (0, st')) \<and>
          0 \<in> set (processed st') \<and>
          map_of (toConvert st') (OpResult 1 0) = Some (Blocked [2]) \<and>
          map_of (toConvert st') (OpResult 2 0) = Some (Blocked [2]))"
proof -
  have cheap: "isExpensiveToRemat env0 addGraph (Some 0) (Blocked [2]) = Inr False"
    by (simp add: sim_defs fixture_defs)
  have inv: "invertEncoding (Blocked [2]) (opAt addGraph 0) = Some (Blocked [2])"
    by (simp add: sim_defs fixture_defs)
  have ops: "operands (opAt addGraph 0) = [OpResult 1 0, OpResult 2 0]"
    by (simp add: fixture_defs)
  have f1: "canFoldConversion env0 addGraph 1 (Blocked [2])"
    and f2: "canFoldConversion env0 addGraph 2 (Blocked [2])"
    by (simp_all add: sim_defs fixture_defs)
  have fold: "\<forall>v \<in> set (operands (opAt addGraph 0)).
                 \<exists>r. getDefiningOp v = Some r \<and> canFoldConversion env0 addGraph r (Blocked [2])"
    using f1 f2 by (simp add: ops)
  have typed: "\<forall>v \<in> set (operands (opAt addGraph 0)). \<not> isPointerToTensor (typeOf addGraph v)"
    by (simp add: fixture_defs)
  have fresh: "\<forall>v \<in> set (operands (opAt addGraph 0)).
                 map_of (toConvert emptyState) v = None \<or>
                 map_of (toConvert emptyState) v = Some (Blocked [2])"
    by (simp add: emptyState_def)
  from foldable_operands_delta_zero [OF cheap inv fold typed fresh]
  show ?thesis using cheap inv ops f1 f2 by simp
qed

text \<open>
  C10. When a run of the simulator does not return \<^verbatim>\<open>INT_MAX\<close>, every operand of every
  processed operation has an entry in the returned value-to-layout map, whatever its
  type: \<^verbatim>\<open>toConvert.insert\<close> comes before the test of the operand's type and producer.
  The property is an invariant of the loop, so it is stated for a run that starts
  from in-out parameters that satisfy it, as the empty ones do.
\<close>

theorem successful_run_records_all_operands:
  assumes "simulateBackwardRematerialization e g initOp st targetEncoding = Some (Inr (m, st'))"
    and "m \<noteq> INT_MAX"
    and "operandsRecorded g st"
  shows "operandsRecorded g st'"
  using simulateLoop_recorded [of e g "[(initOp, targetEncoding)]" 1 st "Inr (m, st')"] assms
  by (simp add: simulateBackwardRematerialization_def)

lemma splat_run:
  "simulateBackwardRematerialization env0 splatGraph (Some 0) emptyState (Blocked [2])
     = Some (Inr (0, \<lparr>processed = [0], layout = [Blocked [2]],
          toConvert = [(BlockArgument 0 0, Blocked [2])]\<rparr>))"
  by (simp add: simulateLoop.simps sim_defs fixture_defs splatGraph_def)

theorem successful_run_records_all_operands_witness:
  "operandsRecorded splatGraph emptyState \<and>
   simulateBackwardRematerialization env0 splatGraph (Some 0) emptyState (Blocked [2])
     = Some (Inr (0, \<lparr>processed = [0], layout = [Blocked [2]],
          toConvert = [(BlockArgument 0 0, Blocked [2])]\<rparr>)) \<and>
   operands (opAt splatGraph 0) = [BlockArgument 0 0] \<and>
   typeOf splatGraph (BlockArgument 0 0) = ScalarType 32 \<and>
   operandsRecorded splatGraph \<lparr>processed = [0], layout = [Blocked [2]],
          toConvert = [(BlockArgument 0 0, Blocked [2])]\<rparr>"
proof -
  have init: "operandsRecorded splatGraph emptyState"
    by (simp add: operandsRecorded_def emptyState_def)
  have ok: "(0::int) \<noteq> INT_MAX" by (simp add: INT_MAX_def)
  from successful_run_records_all_operands [OF splat_run ok init] init splat_run
  show ?thesis by (simp add: splatGraph_def mkGraph_def mkLoopGraph_def mkOp_def)
qed

lemma simulateStep_pushes:
  assumes step: "simulateStep e g queue n st = Again q' n' st'"
  obtains p L rest pushed where "queue = (Some p, L) # rest" and "q' = pushed @ rest"
    and "set (processed st') = insert p (set (processed st))"
    and "\<forall>x \<in> set pushed. \<exists>v r. v \<in> set (operands (opAt g p)) \<and> getDefiningOp v = Some r \<and>
           fst x = Some r \<and> r \<notin> set (processed st') \<and>
           parentBlock (opAt g r) = parentBlock (opAt g p)"
  using step
proof (rule simulateStep_Again)
  fix p L rest
  let ?st = "st\<lparr>processed := setInsert p (processed st), layout := setInsert L (layout st)\<rparr>"
  assume q: "queue = (Some p, L) # rest"
    and v: "visitOperands e g p L (operands (opAt g p)) rest (n - 1) ?st = Continue q' n' st'"
  have pr: "processed st' = processed ?st"
    using visitOperands_processed [OF v] by simp
  from visitOperands_pushed [OF v] obtain pushed where
    "q' = pushed @ rest"
    "\<forall>x \<in> set pushed. \<exists>v r. v \<in> set (operands (opAt g p)) \<and> getDefiningOp v = Some r \<and>
           fst x = Some r \<and> r \<notin> set (processed ?st) \<and>
           parentBlock (opAt g r) = parentBlock (opAt g p)"
    by blast
  with q pr show ?thesis
    by (intro that [of p L rest pushed]) (simp_all add: set_setInsert)
qed

lemma simulateStep_decreases:
  assumes step: "simulateStep e g queue n st = Again q' n' st'"
    and ac: "blockLocalAcyclic g rk"
  shows "(mset (map (rankOf rk \<circ> fst) q'), mset (map (rankOf rk \<circ> fst) queue))
           \<in> mult {(x, y). x < y}"
  using step
proof (rule simulateStep_pushes)
  fix p L rest pushed
  assume q: "queue = (Some p, L) # rest" and q': "q' = pushed @ rest"
    and ps: "\<forall>x \<in> set pushed. \<exists>v r. v \<in> set (operands (opAt g p)) \<and> getDefiningOp v = Some r \<and>
           fst x = Some r \<and> r \<notin> set (processed st') \<and>
           parentBlock (opAt g r) = parentBlock (opAt g p)"
  let ?f = "rankOf rk \<circ> fst"
  have small: "\<forall>k \<in> set_mset (mset (map ?f pushed)). \<exists>j \<in> set_mset {#rk p#}. (k, j) \<in> {(x, y). x < y}"
  proof
    fix k assume "k \<in> set_mset (mset (map ?f pushed))"
    then obtain x where x: "x \<in> set pushed" "k = ?f x" by auto
    with ps obtain v r where "v \<in> set (operands (opAt g p))" "getDefiningOp v = Some r"
      "fst x = Some r" "parentBlock (opAt g r) = parentBlock (opAt g p)" by blast
    with ac x show "\<exists>j \<in> set_mset {#rk p#}. (k, j) \<in> {(x, y). x < y}"
      unfolding blockLocalAcyclic_def by (auto simp: rankOf_def)
  qed
  have "(mset (map ?f rest) + mset (map ?f pushed), mset (map ?f rest) + {#rk p#})
          \<in> mult {(x, y). x < y}"
    by (rule one_step_implies_mult [OF _ small]) simp
  then show ?thesis
    using q q' by (simp add: rankOf_def add.commute)
qed

lemma simulateLoop_terminates:
  assumes ac: "blockLocalAcyclic g rk"
  shows "\<exists>r. simulateLoop e g queue n st = Some r"
proof -
  let ?R = "inv_image (mult {(x::nat, y). x < y}) (\<lambda>q. mset (map (rankOf rk \<circ> fst) q))"
  have "wf ?R"
    by (intro wf_inv_image wf_mult wf_less)
  then show ?thesis
  proof (induction queue arbitrary: n st rule: wf_induct_rule)
    case (less queue)
    show ?case
    proof (cases "simulateStep e g queue n st")
      case (Return r)
      then show ?thesis by (subst simulateLoop.simps) simp
    next
      case (Again q' n' st')
      from simulateStep_decreases [OF Again ac] have "(q', queue) \<in> ?R" by simp
      from less.IH [OF this] obtain r where "simulateLoop e g q' n' st' = Some r" by blast
      with Again show ?thesis by (subst simulateLoop.simps) simp
    qed
  qed
qed

text \<open>
  C8, as the code has it. On a block-local acyclic operand graph the walk ends and
  returns; and an iteration only pushes operations that are not marked processed at
  that moment (the popped one included). The test is made when an operation is pushed,
  not when it is popped.
\<close>

theorem walk_terminates_and_never_pushes_processed:
  "(blockLocalAcyclic g rk \<longrightarrow>
      (\<exists>r. simulateBackwardRematerialization e g initOp st targetEncoding = Some r)) \<and>
   (simulateStep e g queue n st = Again queue' n' st' \<longrightarrow>
      (\<exists>pushed. queue' = pushed @ tl queue \<and>
         (\<forall>x \<in> set pushed. \<exists>r. fst x = Some r \<and> r \<notin> set (processed st'))))"
proof (intro conjI impI)
  assume "blockLocalAcyclic g rk"
  then show "\<exists>r. simulateBackwardRematerialization e g initOp st targetEncoding = Some r"
    unfolding simulateBackwardRematerialization_def by (rule simulateLoop_terminates)
next
  assume "simulateStep e g queue n st = Again queue' n' st'"
  then show "\<exists>pushed. queue' = pushed @ tl queue \<and>
         (\<forall>x \<in> set pushed. \<exists>r. fst x = Some r \<and> r \<notin> set (processed st'))"
  proof (rule simulateStep_pushes)
    fix p L rest pushed
    assume "queue = (Some p, L) # rest" "queue' = pushed @ rest"
      "\<forall>x \<in> set pushed. \<exists>v r. v \<in> set (operands (opAt g p)) \<and> getDefiningOp v = Some r \<and>
           fst x = Some r \<and> r \<notin> set (processed st') \<and>
           parentBlock (opAt g r) = parentBlock (opAt g p)"
    then show ?thesis by (intro exI [of _ pushed]) auto
  qed
qed

lemma twiceGraph_acyclic: "blockLocalAcyclic twiceGraph (\<lambda>p. 2 - p)"
  unfolding blockLocalAcyclic_def
  by (auto simp: twiceGraph_def mkGraph_def mkLoopGraph_def mkOp_def split: if_splits)

lemma twice_step1:
  "simulateStep env0 twiceGraph [(Some 0, Blocked [2])] 1 emptyState
     = Again [(Some 1, Blocked [2]), (Some 1, Blocked [2])] 2
         \<lparr>processed = [0], layout = [Blocked [2]], toConvert = [(OpResult 1 0, Blocked [2])]\<rparr>"
  by (simp add: sim_defs fixture_defs)

lemma twice_step2:
  "simulateStep env0 twiceGraph [(Some 1, Blocked [2]), (Some 1, Blocked [2])] 2
         \<lparr>processed = [0], layout = [Blocked [2]], toConvert = [(OpResult 1 0, Blocked [2])]\<rparr>
     = Again [(Some 1, Blocked [2])] 1
         \<lparr>processed = [0, 1], layout = [Blocked [2]],
          toConvert = [(OpResult 1 0, Blocked [2]), (OpResult 2 0, Blocked [2])]\<rparr>"
  by (simp add: sim_defs fixture_defs)

lemma twice_step3:
  "simulateStep env0 twiceGraph [(Some 1, Blocked [2])] 1
         \<lparr>processed = [0, 1], layout = [Blocked [2]],
          toConvert = [(OpResult 1 0, Blocked [2]), (OpResult 2 0, Blocked [2])]\<rparr>
     = Again [] 0
         \<lparr>processed = [0, 1], layout = [Blocked [2]],
          toConvert = [(OpResult 1 0, Blocked [2]), (OpResult 2 0, Blocked [2])]\<rparr>"
  by (simp add: sim_defs fixture_defs)

theorem walk_terminates_and_never_pushes_processed_witness:
  "blockLocalAcyclic twiceGraph (\<lambda>p. 2 - p) \<and>
   simulateBackwardRematerialization env0 twiceGraph (Some 0) emptyState (Blocked [2])
     = Some (Inr (0, \<lparr>processed = [0, 1], layout = [Blocked [2]],
          toConvert = [(OpResult 1 0, Blocked [2]), (OpResult 2 0, Blocked [2])]\<rparr>)) \<and>
   simulateStep env0 twiceGraph [(Some 0, Blocked [2])] 1 emptyState
     = Again ([(Some 1, Blocked [2]), (Some 1, Blocked [2])] @ tl [(Some 0, Blocked [2])]) 2
         \<lparr>processed = [0], layout = [Blocked [2]], toConvert = [(OpResult 1 0, Blocked [2])]\<rparr> \<and>
   1 \<notin> set [0::nat]"
  using walk_terminates_and_never_pushes_processed
    [of twiceGraph "\<lambda>p. 2 - p" env0 "Some 0" emptyState "Blocked [2]"
        "[(Some 0, Blocked [2])]" 1 "[(Some 1, Blocked [2]), (Some 1, Blocked [2])]" 2
        "\<lparr>processed = [0], layout = [Blocked [2]], toConvert = [(OpResult 1 0, Blocked [2])]\<rparr>"]
    twiceGraph_acyclic twice_step1 twice_step2 twice_step3
  by (simp add: simulateBackwardRematerialization_def simulateLoop.simps [of _ _ "_ # _"]
        simulateLoop.simps [of _ _ "[]"] simulateStep_def [of _ _ "[]"])

text \<open>
  C8 as stated fails. The add of \<open>twiceGraph\<close> reads the result of operation 1 twice,
  so operation 1 is pushed twice before it is popped. The second iteration pops it and
  marks it processed; the third iteration pops it again, the classifier lets it pass,
  its operands are visited again and the counter is decremented again.
\<close>

theorem processed_operation_popped_again:
  "simulateStep env0 twiceGraph [(Some 0, Blocked [2])] 1 emptyState
     = Again [(Some 1, Blocked [2]), (Some 1, Blocked [2])] 2
         \<lparr>processed = [0], layout = [Blocked [2]], toConvert = [(OpResult 1 0, Blocked [2])]\<rparr> \<and>
   simulateStep env0 twiceGraph [(Some 1, Blocked [2]), (Some 1, Blocked [2])] 2
         \<lparr>processed = [0], layout = [Blocked [2]], toConvert = [(OpResult 1 0, Blocked [2])]\<rparr>
     = Again [(Some 1, Blocked [2])] 1
         \<lparr>processed = [0, 1], layout = [Blocked [2]],
          toConvert = [(OpResult 1 0, Blocked [2]), (OpResult 2 0, Blocked [2])]\<rparr> \<and>
   simulateStep env0 twiceGraph [(Some 1, Blocked [2])] 1
         \<lparr>processed = [0, 1], layout = [Blocked [2]],
          toConvert = [(OpResult 1 0, Blocked [2]), (OpResult 2 0, Blocked [2])]\<rparr>
     = Again [] 0
         \<lparr>processed = [0, 1], layout = [Blocked [2]],
          toConvert = [(OpResult 1 0, Blocked [2]), (OpResult 2 0, Blocked [2])]\<rparr>"
  using twice_step1 twice_step2 twice_step3 by simp

section \<open>Properties of the forward checker and of the hoisting decision\<close>

lemmas fwd_defs = simulateForwardRematerializationInLoop_def checkRematerializable_def
  resultUses_def argVal_def nthOperand_def canMoveOutOfLoop_def

lemma loop_slice:
  "getForwardSliceOpUseInfo loopGraph 5 (Some 2) \<lparr>sliceOps = [], sliceUseInfo = []\<rparr>
     = Some \<lparr>sliceOps = [3, 2], sliceUseInfo = [(OpResult 2 0, 3, 0)]\<rparr>"
  by (simp add: fixture_defs fwd_defs sim_defs eval_nat_numeral)

lemma dot_run:
  "simulateBackwardRematerialization env0 loopGraph (Some 1) emptyState (Blocked [2])
     = Some (Inr (1, emptyState))"
  by (simp add: simulateBackwardRematerialization_def simulateLoop_expensive
        isExpensiveToRemat_def loopGraph_def mkLoopGraph_def mkOp_def)

text \<open>
  C2, what the code does. The operand loop of the forward checker seeds the backward
  simulator at the producer of the block argument \<^verbatim>\<open>arg\<close>, which is null, and not at
  the producer of the operand: for every slice, argument, layout and operand list the
  loop ends without rejecting. The claimed rejection, for an operand whose producer is
  outside the slice, is no conversion and has a positive simulated delta, never
  happens.
\<close>

theorem forward_operand_check_never_rejects:
  "getDefiningOp (argVal arg) = None \<and>
   checkOperands e g cvtSliceOps arg targetEncoding values = Some (Inr True)"
proof
  show none: "getDefiningOp (argVal arg) = None" by (simp add: argVal_def)
  have sim: "simulateBackwardRematerialization e g None emptyState targetEncoding
               = Some (Inr (1, emptyState))"
    by (simp add: simulateBackwardRematerialization_def simulateLoop_expensive
          isExpensiveToRemat_def)
  show "checkOperands e g cvtSliceOps arg targetEncoding values = Some (Inr True)"
    by (induction "values") (simp_all add: none sim)
qed

text \<open>
  In \<open>loopGraph\<close> the slice from operation 2 is the yield and operation 2. Operand 1 of
  operation 2 is produced by the dot, operation 1, which is outside the slice, is no
  conversion, and from which the backward simulator returns 1. The checker accepts.
\<close>

theorem forward_operand_check_never_rejects_witness:
  "getForwardSliceOpUseInfo loopGraph 5 (Some 2) \<lparr>sliceOps = [], sliceUseInfo = []\<rparr>
     = Some \<lparr>sliceOps = [3, 2], sliceUseInfo = [(OpResult 2 0, 3, 0)]\<rparr> \<and>
   operands (opAt loopGraph 2) = [BlockArgument 1 1, OpResult 1 0] \<and>
   getDefiningOp (OpResult 1 0) = Some 1 \<and>
   1 \<notin> set [3, 2 :: nat] \<and>
   kind (opAt loopGraph 1) = DotOp \<and>
   simulateBackwardRematerialization env0 loopGraph (Some 1) emptyState (Blocked [2])
     = Some (Inr (1, emptyState)) \<and>
   checkOperands env0 loopGraph [3, 2] (1, 1) (Blocked [2]) [BlockArgument 1 1, OpResult 1 0]
     = Some (Inr True) \<and>
   simulateForwardRematerializationInLoop env0 loopGraph 5 (Some 2) (1, 1) (Blocked [2])
     = Some (Inr True)"
proof -
  have ops: "operands (opAt loopGraph 2) = [BlockArgument 1 1, OpResult 1 0]"
    and k: "kind (opAt loopGraph 1) = DotOp"
    and k2: "kind (opAt loopGraph 2) \<noteq> YieldOp" and k3: "kind (opAt loopGraph 3) = YieldOp"
    by (simp_all add: loopGraph_def mkLoopGraph_def mkOp_def)
  note chk = forward_operand_check_never_rejects
               [of "(1, 1)" env0 loopGraph "[3, 2]" "Blocked [2]" "[BlockArgument 1 1, OpResult 1 0]"]
  have yields: "checkYields loopGraph (1, 1) [(OpResult 2 0, 3, 0)] = Inr True"
    by (simp add: k3)
  have c: "checkOperands env0 loopGraph [3, 2] (1, 1) (Blocked [2]) (operands (opAt loopGraph 2))
             = Some (Inr True)"
    unfolding ops using chk by (rule conjunct2)
  have "simulateForwardRematerializationInLoop env0 loopGraph 5 (Some 2) (1, 1) (Blocked [2])
          = Some (Inr True)"
    using c yields
    by (simp add: simulateForwardRematerializationInLoop_def loop_slice k2 k3
          del: checkOperands.simps checkYields.simps)
  moreover have "checkOperands env0 loopGraph [3, 2] (1, 1) (Blocked [2])
                   [BlockArgument 1 1, OpResult 1 0] = Some (Inr True)"
    using chk by (rule conjunct2)
  ultimately show ?thesis
    using ops k loop_slice dot_run by (simp del: checkOperands.simps)
qed




section \<open>Properties of the loop type fixup\<close>

lemma shouldRematerialize_consistent:
  "shouldRematerialize ts ts ts = Inr False"
  by (induction ts) simp_all

lemma shouldRematerialize_False:
  "shouldRematerialize ts iterTys resTys = Inr False \<Longrightarrow>
   length iterTys = length ts \<Longrightarrow> length resTys = length ts \<Longrightarrow>
   iterTys = ts \<and> resTys = ts"
proof (induction ts arbitrary: iterTys resTys)
  case Nil
  then show ?case by simp
next
  case (Cons t ts)
  from Cons.prems(2) obtain a iterTys' where a: "iterTys = a # iterTys'" by (cases iterTys) auto
  from Cons.prems(3) obtain r resTys' where r: "resTys = r # resTys'" by (cases resTys) auto
  from Cons.prems(1) have "t = a"
    unfolding a r by (cases "t = a") simp_all
  moreover from Cons.prems(1) this have "t = r"
    unfolding a r by (cases "t = r") simp_all
  moreover from Cons.prems(1) \<open>t = a\<close> \<open>t = r\<close>
  have "shouldRematerialize ts iterTys' resTys' = Inr False"
    unfolding a r by simp
  from Cons.IH [OF this] Cons.prems(2,3) have "iterTys' = ts \<and> resTys' = ts"
    unfolding a r by simp
  ultimately show ?case unfolding a r by simp
qed

lemma matchAndRewrite_Some:
  assumes "matchAndRewrite m p = Inr (Some m')"
  obtains f where "map_of (forOps m) p = Some f"
    and "m' = m\<lparr>forOps := replaceOp p
            (f\<lparr>regionIterArgTypes := map (getType m) (initArgs f),
               resultTypes := map (getType m) (initArgs f)\<rparr>) (forOps m)\<rparr>"
  using assms
  by (auto simp: matchAndRewrite_def split: option.splits sum.splits if_splits)

lemma map_loopShape_replaceOp:
  assumes "\<forall>f. (p, f) \<in> set ops \<longrightarrow> loopShape (p, f') = loopShape (p, f)"
  shows "map loopShape (replaceOp p f' ops) = map loopShape ops"
  using assms by (induction ops) (auto simp: replaceOp_def)

lemma wellFormedLoops_shape:
  "wellFormedLoops m \<longleftrightarrow>
     distinct (map fst (map loopShape (forOps m))) \<and>
     (\<forall>x \<in> set (map loopShape (forOps m)).
        fst (snd (snd x)) = length (fst (snd x)) \<and> fst (snd (snd (snd x))) = length (fst (snd x)))"
  by (auto simp: wellFormedLoops_def loopShape_def comp_def)

lemma matchAndRewrite_shape:
  assumes wf: "wellFormedLoops m" and rw: "matchAndRewrite m p = Inr (Some m')"
  shows "map loopShape (forOps m') = map loopShape (forOps m)"
  using rw
proof (rule matchAndRewrite_Some)
  fix f :: forLoop
  let ?f' = "f\<lparr>regionIterArgTypes := map (getType m) (initArgs f),
               resultTypes := map (getType m) (initArgs f)\<rparr>"
  assume f: "map_of (forOps m) p = Some f"
    and m': "m' = m\<lparr>forOps := replaceOp p ?f' (forOps m)\<rparr>"
  have "\<forall>g. (p, g) \<in> set (forOps m) \<longrightarrow> loopShape (p, ?f') = loopShape (p, g)"
  proof (intro allI impI)
    fix g assume g: "(p, g) \<in> set (forOps m)"
    with wf have "map_of (forOps m) p = Some g"
      by (simp add: wellFormedLoops_def)
    with f have "g = f" by simp
    with g wf show "loopShape (p, ?f') = loopShape (p, g)"
      by (auto simp: wellFormedLoops_def loopShape_def)
  qed
  then show ?thesis
    unfolding m' by (simp add: map_loopShape_replaceOp)
qed

lemma firstMatch_Some:
  "firstMatch m ops = Inr (Some m') \<Longrightarrow> \<exists>p. matchAndRewrite m p = Inr (Some m')"
  by (induction ops) (auto split: sum.splits option.splits)

lemma firstMatch_None:
  "firstMatch m ops = Inr None \<Longrightarrow> p \<in> set ops \<Longrightarrow> matchAndRewrite m p = Inr None"
  by (induction ops) (auto split: sum.splits option.splits)

lemma firstMatch_None_all:
  assumes "firstMatch m (map fst (forOps m)) = Inr None"
  shows "matchAndRewrite m p = Inr None"
proof (cases "p \<in> set (map fst (forOps m))")
  case True
  with assms show ?thesis by (rule firstMatch_None)
next
  case False
  then have "map_of (forOps m) p = None" by (simp add: map_of_eq_None_iff)
  then show ?thesis by (simp add: matchAndRewrite_def)
qed

lemma applyPatternsGreedily_fixpoint:
  assumes run: "applyPatternsGreedily m = Some r"
  shows "wellFormedLoops m \<longrightarrow>
         (\<forall>m'. r = Inr m' \<longrightarrow>
            firstMatch m' (map fst (forOps m')) = Inr None \<and>
            map loopShape (forOps m') = map loopShape (forOps m))"
proof -
  let ?P = "\<lambda>m r. wellFormedLoops m \<longrightarrow>
         (\<forall>m'. r = Inr m' \<longrightarrow>
            firstMatch m' (map fst (forOps m')) = Inr None \<and>
            map loopShape (forOps m') = map loopShape (forOps m))"
  have step: "?P m r"
    if IH: "\<And>m r. loop m = Some r \<Longrightarrow> ?P m r"
      and eq: "(case firstMatch m (map fst (forOps m)) of
                  Inl err \<Rightarrow> Some (Inl err)
                | Inr None \<Rightarrow> Some (Inr m)
                | Inr (Some m') \<Rightarrow> loop m') = Some r"
    for loop m r
  proof (cases "firstMatch m (map fst (forOps m))")
    case (Inl err)
    with eq show ?thesis by auto
  next
    case (Inr x)
    show ?thesis
    proof (cases x)
      case None
      with Inr eq show ?thesis by auto
    next
      case (Some m1)
      with Inr eq have l: "loop m1 = Some r" by simp
      show ?thesis
      proof
        assume wf: "wellFormedLoops m"
        from Inr Some obtain p where "matchAndRewrite m p = Inr (Some m1)"
          using firstMatch_Some by blast
        from matchAndRewrite_shape [OF wf this]
        have sh: "map loopShape (forOps m1) = map loopShape (forOps m)" .
        with wf have "wellFormedLoops m1" by (simp add: wellFormedLoops_shape)
        with IH [OF l] sh show "\<forall>m'. r = Inr m' \<longrightarrow>
            firstMatch m' (map fst (forOps m')) = Inr None \<and>
            map loopShape (forOps m') = map loopShape (forOps m)" by simp
      qed
    qed
  qed
  show ?thesis
    by (rule applyPatternsGreedily.raw_induct [where P = ?P, OF step run])
qed

lemma matchAndRewrite_None_consistent:
  assumes wf: "wellFormedLoops m" and none: "matchAndRewrite m p = Inr None"
    and f: "(p, f) \<in> set (forOps m)"
  shows "regionIterArgTypes f = map (getType m) (initArgs f) \<and>
         resultTypes f = map (getType m) (initArgs f)"
proof -
  from wf f have mf: "map_of (forOps m) p = Some f"
    and len: "length (regionIterArgTypes f) = length (initArgs f)"
             "length (resultTypes f) = length (initArgs f)"
    by (auto simp: wellFormedLoops_def)
  from none mf have "shouldRematerialize (map (getType m) (initArgs f))
                       (regionIterArgTypes f) (resultTypes f) = Inr False"
    by (auto simp: matchAndRewrite_def split: sum.splits if_splits)
  from shouldRematerialize_False [OF this] len show ?thesis by simp
qed

lemma orderedSigs_head:
  "orderedSigs (x # xs) \<Longrightarrow> v \<in> set (fst (snd x)) \<Longrightarrow> y \<in> set (x # xs) \<Longrightarrow>
   \<not> definesValue y v"
proof -
  assume o: "orderedSigs (x # xs)" and v: "v \<in> set (fst (snd x))" and y: "y \<in> set (x # xs)"
  from o have "list_all (\<lambda>v. list_all (\<lambda>y. \<not> definesValue y v) (x # xs)) (fst (snd x))"
    by (simp only: orderedSigs.simps)
  then have "\<forall>v \<in> set (fst (snd x)). \<forall>y \<in> set (x # xs). \<not> definesValue y v"
    by (simp only: list_all_iff)
  with v y show ?thesis by blast
qed

lemma orderedSigs_tail: "orderedSigs (x # xs) \<Longrightarrow> orderedSigs xs"
  by (simp only: orderedSigs.simps)

lemma orderedSigs_later:
  "orderedSigs (pre @ x # post) \<Longrightarrow> v \<in> set (fst (snd x)) \<Longrightarrow> y \<in> set (x # post) \<Longrightarrow>
   \<not> definesValue y v"
proof (induction pre)
  case Nil
  then show ?case using orderedSigs_head [of x post v y] by simp
next
  case (Cons a pre)
  from Cons.prems(1) have "orderedSigs (pre @ x # post)"
    using orderedSigs_tail [of a "pre @ x # post"] by simp
  from Cons.IH [OF this Cons.prems(2,3)] show ?case .
qed

lemma orderedSigs_earlier:
  "orderedSigs (pre @ x # post) \<Longrightarrow> z \<in> set pre \<Longrightarrow> v \<in> set (fst (snd z)) \<Longrightarrow>
   \<not> definesValue x v"
proof (induction pre)
  case Nil
  then show ?case by simp
next
  case (Cons a pre)
  show ?case
  proof (cases "z = a")
    case True
    have "x \<in> set (a # pre @ x # post)" by simp
    with Cons.prems(1,3) True show ?thesis
      using orderedSigs_head [of a "pre @ x # post" v x] by simp
  next
    case False
    from Cons.prems(1) have "orderedSigs (pre @ x # post)"
      using orderedSigs_tail [of a "pre @ x # post"] by simp
    with Cons.IH Cons.prems(2,3) False show ?thesis by simp
  qed
qed

lemma loopSig_shape: "loopShape x = loopShape y \<Longrightarrow> loopSig x = loopSig y"
  by (simp add: loopShape_def loopSig_def)

lemma map_loopSig_shape:
  "map loopShape xs = map loopShape ys \<Longrightarrow> map loopSig xs = map loopSig ys"
proof (induction xs arbitrary: ys)
  case Nil
  then show ?case by simp
next
  case (Cons x xs)
  from Cons.prems obtain y ys' where ys: "ys = y # ys'" and xy: "loopShape x = loopShape y"
    and rest: "map loopShape xs = map loopShape ys'" by auto
  from Cons.IH [OF rest] loopSig_shape [OF xy] show ?case by (simp add: ys)
qed


lemma firstMatch_split:
  "firstMatch m ops = Inr (Some m') \<Longrightarrow>
   \<exists>pre p post. ops = pre @ p # post \<and> (\<forall>q \<in> set pre. matchAndRewrite m q = Inr None) \<and>
     matchAndRewrite m p = Inr (Some m')"
proof (induction ops)
  case Nil
  then show ?case by simp
next
  case (Cons a ops)
  show ?case
  proof (cases "matchAndRewrite m a")
    case (Inl err)
    with Cons.prems show ?thesis by simp
  next
    case (Inr x)
    show ?thesis
    proof (cases x)
      case None
      with Inr Cons.prems have "firstMatch m ops = Inr (Some m')" by simp
      from Cons.IH [OF this] obtain pre p post where
        "ops = pre @ p # post" "\<forall>q \<in> set pre. matchAndRewrite m q = Inr None"
        "matchAndRewrite m p = Inr (Some m')" by blast
      with Inr None have "a # ops = (a # pre) @ p # post \<and>
          (\<forall>q \<in> set (a # pre). matchAndRewrite m q = Inr None) \<and>
          matchAndRewrite m p = Inr (Some m')" by simp
      then show ?thesis by blast
    next
      case (Some m1)
      with Inr Cons.prems have "m1 = m'" by simp
      with Inr Some have "a # ops = [] @ a # ops \<and>
          (\<forall>q \<in> set []. matchAndRewrite m q = Inr None) \<and>
          matchAndRewrite m a = Inr (Some m')" by simp
      then show ?thesis by blast
    qed
  qed
qed

lemma map_of_replaceOp: "q \<noteq> p \<Longrightarrow> map_of (replaceOp p f' ops) q = map_of ops q"
  by (induction ops) (auto simp: replaceOp_def)

lemma map_of_replaceOp_same:
  "map_of ops p = Some f \<Longrightarrow> map_of (replaceOp p f' ops) p = Some f'"
  by (induction ops) (auto simp: replaceOp_def split: if_splits)

lemma find_replaceOp:
  assumes "\<forall>g. (p, g) \<in> set ops \<longrightarrow> bodyBlock g \<noteq> b" and "bodyBlock f' \<noteq> b"
  shows "find (\<lambda>(q, g). bodyBlock g = b) (replaceOp p f' ops) = find (\<lambda>(q, g). bodyBlock g = b) ops"
  using assms
proof (induction ops)
  case Nil
  then show ?case by (simp add: replaceOp_def)
next
  case (Cons x ops)
  obtain q g where x: "x = (q, g)" by (cases x)
  from Cons.prems have rest: "\<forall>g. (p, g) \<in> set ops \<longrightarrow> bodyBlock g \<noteq> b" by simp
  have IH: "find (\<lambda>(q, g). bodyBlock g = b) (replaceOp p f' ops) = find (\<lambda>(q, g). bodyBlock g = b) ops"
    by (rule Cons.IH [OF rest Cons.prems(2)])
  have unfold: "replaceOp p f' ((q, g) # ops) = (if q = p then (q, f') else (q, g)) # replaceOp p f' ops"
    by (simp add: replaceOp_def)
  show ?case
  proof (cases "q = p")
    case True
    with Cons.prems(1) x have "bodyBlock g \<noteq> b" by simp
    with True Cons.prems(2) IH show ?thesis unfolding x unfold by simp
  next
    case False
    with IH show ?thesis unfolding x unfold by simp
  qed
qed

lemma getType_replaceOp:
  assumes same: "\<forall>g. (p, g) \<in> set (forOps m) \<longrightarrow> bodyBlock g = bodyBlock f'"
    and nd: "\<not> definesValue (p, inits, bodyBlock f') v"
  shows "getType (m\<lparr>forOps := replaceOp p f' (forOps m)\<rparr>) v = getType m v"
proof (cases v)
  case (OpResult q i)
  with nd have "q \<noteq> p" by simp
  then show ?thesis by (simp add: OpResult map_of_replaceOp split: option.splits)
next
  case (BlockArgument b i)
  with nd have b: "bodyBlock f' \<noteq> b" by simp
  with same have "\<forall>g. (p, g) \<in> set (forOps m) \<longrightarrow> bodyBlock g \<noteq> b" by auto
  from find_replaceOp [OF this b] show ?thesis
    by (simp add: BlockArgument split: option.splits)
qed


lemma rewrite_types:
  assumes wf: "wellFormedLoops m" and f: "map_of (forOps m) p = Some f"
    and nd: "\<forall>v \<in> set vs. \<not> definesValue (loopSig (p, f)) v"
  shows "map (getType (m\<lparr>forOps := replaceOp p
            (f\<lparr>regionIterArgTypes := tys, resultTypes := tys'\<rparr>) (forOps m)\<rparr>)) vs
         = map (getType m) vs"
proof -
  let ?f' = "f\<lparr>regionIterArgTypes := tys, resultTypes := tys'\<rparr>"
  have same: "\<forall>g. (p, g) \<in> set (forOps m) \<longrightarrow> bodyBlock g = bodyBlock ?f'"
  proof (intro allI impI)
    fix g assume "(p, g) \<in> set (forOps m)"
    with wf have "map_of (forOps m) p = Some g" by (simp add: wellFormedLoops_def)
    with f show "bodyBlock g = bodyBlock ?f'" by simp
  qed
  have "getType (m\<lparr>forOps := replaceOp p ?f' (forOps m)\<rparr>) v = getType m v" if "v \<in> set vs" for v
  proof -
    from nd that have "\<not> definesValue (p, initArgs f, bodyBlock ?f') v"
      by (simp add: loopSig_def)
    from getType_replaceOp [OF same this] show ?thesis .
  qed
  then show ?thesis by simp
qed

lemma rewrite_quiet_other:
  assumes wf: "wellFormedLoops m" and rw: "matchAndRewrite m p = Inr (Some m')"
    and f: "map_of (forOps m) p = Some f"
    and g: "map_of (forOps m) q = Some g" and qp: "q \<noteq> p"
    and quiet: "matchAndRewrite m q = Inr None"
    and nd: "\<forall>v \<in> set (initArgs g). \<not> definesValue (loopSig (p, f)) v"
  shows "matchAndRewrite m' q = Inr None"
  using rw
proof (rule matchAndRewrite_Some)
  fix f0 :: forLoop
  assume f0: "map_of (forOps m) p = Some f0"
    and m': "m' = m\<lparr>forOps := replaceOp p
            (f0\<lparr>regionIterArgTypes := map (getType m) (initArgs f0),
                resultTypes := map (getType m) (initArgs f0)\<rparr>) (forOps m)\<rparr>"
  from f f0 have ff: "f0 = f" by simp
  have tys: "map (getType m') (initArgs g) = map (getType m) (initArgs g)"
    unfolding m' ff by (rule rewrite_types [OF wf f nd])
  have mo: "map_of (forOps m') q = Some g"
    unfolding m' using qp g by (simp add: map_of_replaceOp)
  from quiet g have "(case shouldRematerialize (map (getType m) (initArgs g))
                  (regionIterArgTypes g) (resultTypes g) of
             Inl err \<Rightarrow> Inl err
           | Inr should \<Rightarrow> if \<not> should then Inr None else Inr (Some m)) = Inr None"
    by (auto simp: matchAndRewrite_def split: sum.splits if_splits)
  then have "shouldRematerialize (map (getType m) (initArgs g))
                  (regionIterArgTypes g) (resultTypes g) = Inr False"
    by (auto split: sum.splits if_splits)
  then show ?thesis
    by (simp add: matchAndRewrite_def mo tys)
qed

lemma rewrite_quiet_self:
  assumes wf: "wellFormedLoops m" and rw: "matchAndRewrite m p = Inr (Some m')"
    and f: "map_of (forOps m) p = Some f"
    and nd: "\<forall>v \<in> set (initArgs f). \<not> definesValue (loopSig (p, f)) v"
  shows "matchAndRewrite m' p = Inr None"
  using rw
proof (rule matchAndRewrite_Some)
  fix f0 :: forLoop
  let ?f' = "f\<lparr>regionIterArgTypes := map (getType m) (initArgs f),
                resultTypes := map (getType m) (initArgs f)\<rparr>"
  assume f0: "map_of (forOps m) p = Some f0"
    and m': "m' = m\<lparr>forOps := replaceOp p
            (f0\<lparr>regionIterArgTypes := map (getType m) (initArgs f0),
                resultTypes := map (getType m) (initArgs f0)\<rparr>) (forOps m)\<rparr>"
  from f f0 have ff: "f0 = f" by simp
  have tys: "map (getType m') (initArgs f) = map (getType m) (initArgs f)"
    unfolding m' ff by (rule rewrite_types [OF wf f nd])
  have mo: "map_of (forOps m') p = Some ?f'"
    unfolding m' ff using f by (simp add: map_of_replaceOp_same)
  show ?thesis
    by (simp add: matchAndRewrite_def mo tys shouldRematerialize_consistent)
qed


lemma map_fst_shape:
  "map loopShape xs = map loopShape ys \<Longrightarrow> map fst xs = map fst ys"
proof -
  assume "map loopShape xs = map loopShape ys"
  then have "map fst (map loopShape xs) = map fst (map loopShape ys)" by simp
  then show ?thesis by (simp add: loopShape_def comp_def)
qed

lemma applyPatternsGreedily_terminates_from:
  "wellFormedLoops m \<Longrightarrow> orderedLoops m \<Longrightarrow> map fst (forOps m) = pre @ post \<Longrightarrow>
   (\<forall>q \<in> set pre. matchAndRewrite m q = Inr None) \<Longrightarrow> \<exists>r. applyPatternsGreedily m = Some r"
proof (induction "length post" arbitrary: m pre post rule: less_induct)
  case less
  note wf = less.prems(1) and ord = less.prems(2) and keys = less.prems(3) and quiet = less.prems(4)
  show ?case
  proof (cases "firstMatch m (map fst (forOps m))")
    case (Inl err)
    then show ?thesis by (subst applyPatternsGreedily.simps) simp
  next
    case (Inr x)
    show ?thesis
    proof (cases x)
      case None
      with Inr show ?thesis by (subst applyPatternsGreedily.simps) simp
    next
      case (Some m1)
      with Inr have fm: "firstMatch m (map fst (forOps m)) = Inr (Some m1)" by simp
      from firstMatch_split [OF fm] obtain pre2 p post2 where
        keys2: "map fst (forOps m) = pre2 @ p # post2"
        and quiet2: "\<forall>q \<in> set pre2. matchAndRewrite m q = Inr None"
        and rw: "matchAndRewrite m p = Inr (Some m1)" by blast
      from wf have dist: "distinct (map fst (forOps m))" by (simp add: wellFormedLoops_def)
      have ppre: "p \<notin> set pre"
      proof
        assume "p \<in> set pre"
        with quiet rw show False by simp
      qed
      have shorter: "length post2 < length post"
      proof -
        from keys keys2 have "pre @ post = pre2 @ p # post2" by simp
        then obtain us where "pre = pre2 @ us \<and> us @ post = p # post2 \<or>
                              pre @ us = pre2 \<and> post = us @ p # post2"
          by (auto simp: append_eq_append_conv2)
        then show ?thesis
        proof
          assume a: "pre = pre2 @ us \<and> us @ post = p # post2"
          show ?thesis
          proof (cases us)
            case Nil
            with a show ?thesis by auto
          next
            case (Cons u us')
            with a have "p \<in> set pre" by auto
            with ppre show ?thesis by simp
          qed
        next
          assume "pre @ us = pre2 \<and> post = us @ p # post2"
          then show ?thesis by auto
        qed
      qed
      from keys2 obtain A x B where split: "forOps m = A @ x # B"
        and A: "map fst A = pre2" and x: "fst x = p" and B: "map fst B = post2"
        by (auto simp: map_eq_append_conv map_eq_Cons_conv)
      obtain f where xf: "x = (p, f)" using x by (cases x) simp
      have "(p, f) \<in> set (forOps m)" by (simp add: split xf)
      with dist have f: "map_of (forOps m) p = Some f" by simp
      have sigs: "map loopSig (forOps m) = map loopSig A @ loopSig (p, f) # map loopSig B"
        by (simp add: split xf)
      from ord have osig: "orderedSigs (map loopSig A @ loopSig (p, f) # map loopSig B)"
        by (simp add: orderedLoops_def sigs)
      have sh: "map loopShape (forOps m1) = map loopShape (forOps m)"
        by (rule matchAndRewrite_shape [OF wf rw])
      from wf sh have wf1: "wellFormedLoops m1" by (simp add: wellFormedLoops_shape)
      from ord have ord1: "orderedLoops m1"
        by (simp add: orderedLoops_def map_loopSig_shape [OF sh])
      have keys1: "map fst (forOps m1) = (pre2 @ [p]) @ post2"
        using map_fst_shape [OF sh] keys2 by simp
      have self: "matchAndRewrite m1 p = Inr None"
      proof (rule rewrite_quiet_self [OF wf rw f])
        show "\<forall>v \<in> set (initArgs f). \<not> definesValue (loopSig (p, f)) v"
        proof
          fix v assume "v \<in> set (initArgs f)"
          then have "v \<in> set (fst (snd (loopSig (p, f))))" by (simp add: loopSig_def)
          from orderedSigs_later [OF osig this, of "loopSig (p, f)"]
          show "\<not> definesValue (loopSig (p, f)) v" by simp
        qed
      qed
      have other: "matchAndRewrite m1 q = Inr None" if q: "q \<in> set pre2" for q
      proof -
        from q A obtain g where qg: "(q, g) \<in> set A" by force
        then have "(q, g) \<in> set (forOps m)" by (simp add: split)
        with dist have g: "map_of (forOps m) q = Some g" by simp
        from dist keys2 q have qp: "q \<noteq> p" by auto
        have nd: "\<forall>v \<in> set (initArgs g). \<not> definesValue (loopSig (p, f)) v"
        proof
          fix v assume "v \<in> set (initArgs g)"
          then have v: "v \<in> set (fst (snd (loopSig (q, g))))" by (simp add: loopSig_def)
          from qg have "loopSig (q, g) \<in> set (map loopSig A)" by force
          from orderedSigs_earlier [OF osig this v]
          show "\<not> definesValue (loopSig (p, f)) v" .
        qed
        from quiet2 q have "matchAndRewrite m q = Inr None" by simp
        from rewrite_quiet_other [OF wf rw f g qp this nd] show ?thesis .
      qed
      have quiet1: "\<forall>q \<in> set (pre2 @ [p]). matchAndRewrite m1 q = Inr None"
        using self other by auto
      from less.hyps [OF shorter wf1 ord1 keys1 quiet1]
      obtain r where "applyPatternsGreedily m1 = Some r" by blast
      with fm show ?thesis by (subst applyPatternsGreedily.simps) simp
    qed
  qed
qed

lemma shouldRematerialize_no_error:
  "length iterTys = length ts \<Longrightarrow> length resTys = length ts \<Longrightarrow>
   shouldRematerialize ts iterTys resTys \<noteq> Inl err"
proof (induction ts arbitrary: iterTys resTys)
  case Nil
  then show ?case by simp
next
  case (Cons t ts)
  from Cons.prems(1) obtain a iterTys' where a: "iterTys = a # iterTys'" by (cases iterTys) auto
  from Cons.prems(2) obtain r resTys' where r: "resTys = r # resTys'" by (cases resTys) auto
  from Cons.prems have "length iterTys' = length ts" "length resTys' = length ts"
    by (simp_all add: a r)
  from Cons.IH [OF this] show ?case by (simp add: a r)
qed

lemma matchAndRewrite_no_error:
  assumes wf: "wellFormedLoops m"
  shows "matchAndRewrite m p \<noteq> Inl err"
proof (cases "map_of (forOps m) p")
  case None
  then show ?thesis by (simp add: matchAndRewrite_def)
next
  case (Some f)
  then have "(p, f) \<in> set (forOps m)" by (rule map_of_SomeD)
  with wf have "length (regionIterArgTypes f) = length (map (getType m) (initArgs f))"
    "length (resultTypes f) = length (map (getType m) (initArgs f))"
    by (auto simp: wellFormedLoops_def)
  from shouldRematerialize_no_error [OF this, of err] Some show ?thesis
    by (auto simp: matchAndRewrite_def split: sum.splits)
qed

lemma firstMatch_no_error:
  "wellFormedLoops m \<Longrightarrow> firstMatch m ops \<noteq> Inl err"
  by (induction ops) (auto simp: matchAndRewrite_no_error split: sum.splits option.splits)

lemma applyPatternsGreedily_no_error:
  assumes run: "applyPatternsGreedily m = Some r"
  shows "wellFormedLoops m \<longrightarrow> (\<exists>m'. r = Inr m')"
proof -
  let ?P = "\<lambda>m (r :: error + moduleOp). wellFormedLoops m \<longrightarrow> (\<exists>m'. r = Inr m')"
  have step: "?P m r"
    if IH: "\<And>m r. loop m = Some r \<Longrightarrow> ?P m r"
      and eq: "(case firstMatch m (map fst (forOps m)) of
                  Inl err \<Rightarrow> Some (Inl err)
                | Inr None \<Rightarrow> Some (Inr m)
                | Inr (Some m') \<Rightarrow> loop m') = Some r"
    for loop m r
  proof
    assume wf: "wellFormedLoops m"
    show "\<exists>m'. r = Inr m'"
    proof (cases "firstMatch m (map fst (forOps m))")
      case (Inl err)
      with firstMatch_no_error [OF wf] show ?thesis by blast
    next
      case (Inr x)
      show ?thesis
      proof (cases x)
        case None
        with Inr eq show ?thesis by auto
      next
        case (Some m1)
        with Inr eq have l: "loop m1 = Some r" by simp
        from Inr Some obtain p where "matchAndRewrite m p = Inr (Some m1)"
          using firstMatch_Some by blast
        from matchAndRewrite_shape [OF wf this] wf have "wellFormedLoops m1"
          by (simp add: wellFormedLoops_shape)
        with IH [OF l] show ?thesis by simp
      qed
    qed
  qed
  show ?thesis
    by (rule applyPatternsGreedily.raw_induct [where P = ?P, OF step run])
qed

lemma fixupLoops_returns:
  assumes wf: "wellFormedLoops m" and ord: "orderedLoops m"
  shows "\<exists>m'. fixupLoops m = Some (Inr m')"
proof -
  have "\<exists>r. applyPatternsGreedily m = Some r"
    by (rule applyPatternsGreedily_terminates_from [OF wf ord, of "[]" "map fst (forOps m)"])
       simp_all
  then obtain r where r: "applyPatternsGreedily m = Some r" by blast
  from applyPatternsGreedily_no_error [OF r] wf obtain m' where "r = Inr m'" by blast
  with r show ?thesis by (simp add: fixupLoops_def)
qed

text \<open>
  C7. Let \<open>m\<close> be a well-formed module. If its loops are in dominance order, the pass
  returns. If the pass returns \<open>m'\<close>, then run again on \<open>m'\<close> it returns \<open>m'\<close> and the
  pattern applies to no operation of it; every loop of \<open>m'\<close> stands where it stood, with
  the same initial values, the same number of iteration arguments and of results, the
  same body and bounds; and the type of its \<open>i\<close>-th iteration argument and of its
  \<open>i\<close>-th result is the type of its \<open>i\<close>-th initial value. And the pattern fails,
  rewriting nothing, on every loop of \<open>m\<close> whose iteration arguments and results have
  the types of its initial values.
\<close>

theorem fixupLoops_idempotent_and_shape_preserving:
  assumes wf: "wellFormedLoops m"
  shows "(orderedLoops m \<longrightarrow> (\<exists>r. fixupLoops m = Some (Inr r))) \<and>
         (fixupLoops m = Some (Inr m') \<longrightarrow>
            fixupLoops m' = Some (Inr m') \<and>
            (\<forall>p. matchAndRewrite m' p = Inr None) \<and>
            map loopShape (forOps m') = map loopShape (forOps m) \<and>
            (\<forall>(p, f) \<in> set (forOps m'). regionIterArgTypes f = map (getType m') (initArgs f) \<and>
                                         resultTypes f = map (getType m') (initArgs f))) \<and>
         (\<forall>p f. map_of (forOps m) p = Some f \<and>
                 regionIterArgTypes f = map (getType m) (initArgs f) \<and>
                 resultTypes f = map (getType m) (initArgs f) \<longrightarrow> matchAndRewrite m p = Inr None)"
proof -
  have returns: "\<exists>r. fixupLoops m = Some (Inr r)" if "orderedLoops m"
    using wf that by (rule fixupLoops_returns)
  have fixpoint: "fixupLoops m' = Some (Inr m') \<and>
            (\<forall>p. matchAndRewrite m' p = Inr None) \<and>
            map loopShape (forOps m') = map loopShape (forOps m) \<and>
            (\<forall>(p, f) \<in> set (forOps m'). regionIterArgTypes f = map (getType m') (initArgs f) \<and>
                                         resultTypes f = map (getType m') (initArgs f))"
    if run: "fixupLoops m = Some (Inr m')"
  proof -
    from applyPatternsGreedily_fixpoint [of m "Inr m'"] wf run
    have fp: "firstMatch m' (map fst (forOps m')) = Inr None"
      and sh: "map loopShape (forOps m') = map loopShape (forOps m)"
      by (simp_all add: fixupLoops_def)
    from fp have again: "fixupLoops m' = Some (Inr m')"
      unfolding fixupLoops_def by (subst applyPatternsGreedily.simps) simp
    from fp have none: "\<forall>p. matchAndRewrite m' p = Inr None"
      by (simp add: firstMatch_None_all)
    from wf sh have wf': "wellFormedLoops m'" by (simp add: wellFormedLoops_shape)
    have cons: "\<forall>(p, f) \<in> set (forOps m'). regionIterArgTypes f = map (getType m') (initArgs f) \<and>
                                    resultTypes f = map (getType m') (initArgs f)"
      using matchAndRewrite_None_consistent [OF wf'] none by auto
    from again none sh cons show ?thesis by blast
  qed
  have untouched: "\<forall>p f. map_of (forOps m) p = Some f \<and>
               regionIterArgTypes f = map (getType m) (initArgs f) \<and>
               resultTypes f = map (getType m) (initArgs f) \<longrightarrow> matchAndRewrite m p = Inr None"
    by (auto simp: matchAndRewrite_def shouldRematerialize_consistent)
  from returns fixpoint untouched show ?thesis by blast
qed

lemma stale_wf: "wellFormedLoops staleModule"
  by (simp add: wellFormedLoops_def staleModule_def mkFor_def)

lemmas fixup_defs = staleModule_def halfFixedModule_def fixedModule_def mkFor_def
  matchAndRewrite_def replaceOp_def tensorTy_def layoutA_def layoutB_def

lemma stale_step1:
  "firstMatch staleModule (map fst (forOps staleModule)) = Inr (Some halfFixedModule)"
  by (simp add: fixup_defs)

lemma stale_step2:
  "firstMatch halfFixedModule (map fst (forOps halfFixedModule)) = Inr (Some fixedModule)"
  by (simp add: fixup_defs)

lemma stale_step3:
  "firstMatch fixedModule (map fst (forOps fixedModule)) = Inr None"
  by (simp add: fixup_defs)

lemma stale_run: "fixupLoops staleModule = Some (Inr fixedModule)"
proof -
  have "applyPatternsGreedily fixedModule = Some (Inr fixedModule)"
    by (subst applyPatternsGreedily.simps) (simp add: stale_step3)
  then have "applyPatternsGreedily halfFixedModule = Some (Inr fixedModule)"
    by (subst applyPatternsGreedily.simps) (simp add: stale_step2)
  then show ?thesis
    unfolding fixupLoops_def
    by (subst applyPatternsGreedily.simps) (simp add: stale_step1)
qed

lemma stale_ordered: "orderedLoops staleModule"
  by (simp add: orderedLoops_def loopSig_def staleModule_def mkFor_def)

theorem fixupLoops_idempotent_and_shape_preserving_witness:
  "wellFormedLoops staleModule \<and> orderedLoops staleModule \<and>
   fixupLoops staleModule = Some (Inr fixedModule) \<and>
   fixupLoops fixedModule = Some (Inr fixedModule) \<and>
   matchAndRewrite fixedModule 10 = Inr None \<and> matchAndRewrite fixedModule 11 = Inr None \<and>
   map loopShape (forOps fixedModule) = map loopShape (forOps staleModule) \<and>
   map (regionIterArgTypes \<circ> snd) (forOps fixedModule) = [[tensorTy layoutB], [tensorTy layoutB]] \<and>
   map (resultTypes \<circ> snd) (forOps fixedModule) = [[tensorTy layoutB], [tensorTy layoutB]]"
  using fixupLoops_idempotent_and_shape_preserving [OF stale_wf, of fixedModule] stale_wf stale_run stale_ordered
  by (simp add: fixedModule_def mkFor_def)

section \<open>Properties of the rewrite executor\<close>
























lemma blockOps_moveToStart_subset:
  "set (blockOps (moveToStart s p c) b) \<subseteq> insert p (set (blockOps s b))"
proof -
  have r: "set (remove1 p ops) \<subseteq> set ops" for ops :: "opid list"
    by (rule set_remove1_subset)
  show ?thesis
    using r by (auto simp: moveToStart_def unlinkOp_def Let_def)
qed




text \<open>The first loop of the executor and the transfer to first results.\<close>

lemma getDefiningOp_Some: "getDefiningOp v = Some p \<longleftrightarrow> (\<exists>i. v = OpResult p i)"
  by (cases v) auto














text \<open>
  The whole executor on the plan for the block argument and for the result of the
  negation: the argument is converted first (operation 6), the clone of the negation
  (operation 7) reads the converted argument and so has layout B, and the conversion
  after the clone (operation 8) goes from layout B to layout B.
\<close>

lemma rematerializeConversionChain_example:
  "map_sum id (\<lambda>s. (blockOps s 0, map (\<lambda>p. (kind (rwOp s p), operands (rwOp s p))) [6, 7, 8],
                    map (rwType s) [OpResult 6 0, OpResult 7 0, OpResult 8 0],
                    mapping s (BlockArgument 0 0), mapping s (OpResult 5 0)))
     (rematerializeConversionChain noMlir negPlan [5] negState)
   = Inr ([6, 5, 7, 8],
          [(ConvertLayoutOp, [BlockArgument 0 0]), (OtherOp ''arith.negf'', [OpResult 6 0]),
           (ConvertLayoutOp, [OpResult 7 0])],
          [rwTensorTy (Some layoutB), rwTensorTy (Some layoutB), rwTensorTy (Some layoutB)],
          Some (OpResult 6 0), Some (OpResult 8 0))"
  by code_simp

text \<open>
  A producer with two results, not processed, both results in the plan: only the first
  result is handled. One conversion is inserted and the second result is left without
  a conversion and without an entry in the mapping.
\<close>

lemma second_result_not_converted:
  "map_sum id (\<lambda>s. (blockOps s 0, nextOp s, operands (rwOp s 6),
                    mapping s (OpResult 5 0), mapping s (OpResult 5 1)))
     (rematerializeConversionChain noMlir
        [(OpResult 5 0, layoutB), (OpResult 5 1, layoutB)] [] pairState)
   = Inr ([5, 6], 7, [OpResult 5 0], Some (OpResult 6 0), None)"
  by code_simp

text \<open>
  The same producer, processed: the clone carries both results, the second result is
  mapped to the second result of the clone and only the first result of the clone is
  converted.
\<close>

lemma second_result_mapped_to_clone:
  "map_sum id (\<lambda>s. (blockOps s 0, nextOp s, operands (rwOp s 7),
                    mapping s (OpResult 5 0), mapping s (OpResult 5 1)))
     (rematerializeConversionChain noMlir
        [(OpResult 5 0, layoutB), (OpResult 5 1, layoutB)] [5] pairState)
   = Inr ([5, 6, 7], 8, [OpResult 6 0], Some (OpResult 7 0), Some (OpResult 6 1))"
  by code_simp

text \<open>
  Only the second result in the plan: the executor handles the first result, which has
  no entry in the plan, and converts it to a tensor type without encoding.
\<close>

lemma first_result_without_layout:
  "map_sum id (\<lambda>s. (blockOps s 0, operands (rwOp s 6), rwType s (OpResult 6 0),
                    mapping s (OpResult 5 0), mapping s (OpResult 5 1)))
     (rematerializeConversionChain noMlir [(OpResult 5 1, layoutB)] [] pairState)
   = Inr ([5, 6], [OpResult 5 0], rwTensorTy None, Some (OpResult 6 0), None)"
  by code_simp

end
